theory Spec2Isabelle
  imports Main "HOL-Library.Word"
begin

section \<open>Job records (models/job.go)\<close>

text \<open>
  An ObjectID is an opaque 12-byte identifier and a \<open>time.Time\<close> an instant; both are
  only stored and compared, so they are natural numbers here. A payload is a Go
  \<open>map[string]interface{}\<close>: an association list read with \<open>map_of\<close>, whose values
  carry their dynamic type. \<open>RetryCount\<close> is a Go \<open>int\<close>, 64 bits wide with wrap-around,
  read as two's complement by \<open>sint\<close>.
\<close>

type_synonym ObjectID = nat
type_synonym Time = nat

datatype iface =
    INil
  | IBool bool
  | INumber int
  | IString string
  | IArray "iface list"
  | IDocument "(string \<times> iface) list"

type_synonym payload = "(string \<times> iface) list"

record Job =
  ID :: ObjectID
  Type :: string
  Payload :: payload
  RetryCount :: "64 word"
  Status :: string
  CreatedAt :: Time
  UpdatedAt :: Time

definition StatusPending :: string where "StatusPending = ''pending''"
definition StatusProcessing :: string where "StatusProcessing = ''processing''"
definition StatusCompleted :: string where "StatusCompleted = ''completed''"
definition StatusFailed :: string where "StatusFailed = ''failed''"
definition MaxRetries :: int where "MaxRetries = 3"

section \<open>The jobs collection\<close>

text \<open>
  The MongoDB collection is the list of its documents, every one of the shape of
  \<open>models.Job\<close>. The driver is an external collaborator: each call may fail (network,
  deadline of the context), which the caller of the model decides with a flag; a call
  that fails leaves the collection as it was. A \<open>$set\<close> document is the list of the
  fields it assigns.
\<close>

datatype err = ErrNoDocuments | ErrDuplicateKey | ErrStore

datatype set_field =
    Set_type string
  | Set_payload payload
  | Set_retryCount "64 word"
  | Set_status string
  | Set_createdAt Time
  | Set_updatedAt Time

fun apply_set :: "set_field \<Rightarrow> Job \<Rightarrow> Job" where
  "apply_set (Set_type v) j = j\<lparr>Type := v\<rparr>"
| "apply_set (Set_payload v) j = j\<lparr>Payload := v\<rparr>"
| "apply_set (Set_retryCount v) j = j\<lparr>RetryCount := v\<rparr>"
| "apply_set (Set_status v) j = j\<lparr>Status := v\<rparr>"
| "apply_set (Set_createdAt v) j = j\<lparr>CreatedAt := v\<rparr>"
| "apply_set (Set_updatedAt v) j = j\<lparr>UpdatedAt := v\<rparr>"

definition set_fields :: "set_field list \<Rightarrow> Job \<Rightarrow> Job" where
  "set_fields u j = fold apply_set u j"

text \<open>\<open>UpdateOne\<close> changes the first document that matches the filter \<open>{_id: i}\<close>;
  when none matches it changes nothing and reports no error.\<close>

fun update_first :: "ObjectID \<Rightarrow> (Job \<Rightarrow> Job) \<Rightarrow> Job list \<Rightarrow> Job list" where
  "update_first i f [] = []"
| "update_first i f (j # js) = (if ID j = i then f j # js else j # update_first i f js)"

section \<open>The worker's memory and its observable effects\<close>

text \<open>
  The state a delivery works on: the collection, the buffered channel \<open>jobQueue\<close>, and a
  trace of what the code did, in order: every line it logged, every \<open>UpdateOne\<close> it
  issued (with the identifier, the \<open>$set\<close> document and whether the call failed) and every
  identifier it sent to the channel.
\<close>

datatype log_line =
    Failed_to_find_job ObjectID
  | Failed_to_update_to_processing ObjectID
  | Processing_job ObjectID
  | Failed_to_mark_as_failed ObjectID
  | Job_failed ObjectID "64 word"
  | Re_enqueueing_job ObjectID
  | Failed_to_update_to_completed ObjectID
  | Completed_job ObjectID
  | Failed_to_insert_job
  | Failed_to_query_jobs
  | Failed_to_decode_jobs
  | Starting_job_workers nat
  | Worker_started nat
  | Worker_stopped nat
  | Stopping_all_workers

datatype event =
    Log log_line
  | Update ObjectID "set_field list" bool
  | Enqueue ObjectID

record state =
  jobsCol :: "Job list"
  jobQueue :: "ObjectID list"
  trace :: "event list"

definition log_Printf :: "log_line \<Rightarrow> state \<Rightarrow> state" where
  "log_Printf l s = s\<lparr>trace := trace s @ [Log l]\<rparr>"

definition FindOne :: "bool \<Rightarrow> ObjectID \<Rightarrow> state \<Rightarrow> err + Job" where
  "FindOne fails i s =
     (if fails then Inl ErrStore
      else case find (\<lambda>j. ID j = i) (jobsCol s) of
             None \<Rightarrow> Inl ErrNoDocuments
           | Some j \<Rightarrow> Inr j)"

definition UpdateOne :: "bool \<Rightarrow> ObjectID \<Rightarrow> set_field list \<Rightarrow> state \<Rightarrow> err option \<times> state" where
  "UpdateOne fails i u s =
     (if fails then (Some ErrStore, s\<lparr>trace := trace s @ [Update i u True]\<rparr>)
      else (None, s\<lparr>jobsCol := update_first i (set_fields u) (jobsCol s),
                     trace := trace s @ [Update i u False]\<rparr>))"

text \<open>\<open>InsertOne\<close> appends the document unless one with the same \<open>_id\<close> exists (the
  collection's unique index). \<open>Find\<close> with the empty filter returns every document, in
  the order of the sort on \<open>createdAt\<close> (a negative direction is descending) and cut
  at the limit (0 means no limit, a negative limit counts as its absolute value). The
  order among documents with equal \<open>createdAt\<close> is the collection's.\<close>

definition InsertOne :: "bool \<Rightarrow> Job \<Rightarrow> state \<Rightarrow> (err + ObjectID) \<times> state" where
  "InsertOne fails job s =
     (if fails then (Inl ErrStore, s)
      else if find (\<lambda>j. ID j = ID job) (jobsCol s) \<noteq> None then (Inl ErrDuplicateKey, s)
      else (Inr (ID job), s\<lparr>jobsCol := jobsCol s @ [job]\<rparr>))"

definition Find :: "bool \<Rightarrow> int \<Rightarrow> int \<Rightarrow> state \<Rightarrow> err + Job list" where
  "Find fails limit createdAt_order s =
     (if fails then Inl ErrStore
      else Inr (let ordered = (if createdAt_order < 0 then rev (sort_key CreatedAt (jobsCol s))
                               else sort_key CreatedAt (jobsCol s))
                in if limit = 0 then ordered else take (nat \<bar>limit\<bar>) ordered))"

text \<open>\<open>EnqueueJob\<close> sends on the channel. A send blocks while the buffer is full and
  completes once a receive has made room; the model records the send when it completes
  and does not bound the buffer (no property below depends on the capacity).\<close>

definition EnqueueJob :: "ObjectID \<Rightarrow> state \<Rightarrow> state" where
  "EnqueueJob jobID s = s\<lparr>jobQueue := jobQueue s @ [jobID], trace := trace s @ [Enqueue jobID]\<rparr>"

section \<open>processJob (services, JobWorker)\<close>

text \<open>What the environment does during one delivery: whether the fetch and each of the
  at most two writes fail, and what \<open>time.Now()\<close> reads when each write is built.\<close>

record delivery =
  find_fails :: bool
  update1_fails :: bool
  now1 :: Time
  update2_fails :: bool
  now2 :: Time

text \<open>The simulated execution: \<open>val, ok := job.Payload["fail"].(bool); ok && val\<close>.\<close>

definition execution_fails :: "Job \<Rightarrow> bool" where
  "execution_fails job =
     (case map_of (Payload job) ''fail'' of
        Some (IBool val) \<Rightarrow> val
      | _ \<Rightarrow> False)"

definition processJob :: "delivery \<Rightarrow> ObjectID \<Rightarrow> state \<Rightarrow> state" where
  "processJob d jobID s =
     (case FindOne (find_fails d) jobID s of
        Inl e \<Rightarrow> log_Printf (Failed_to_find_job jobID) s
      | Inr job \<Rightarrow>
         (case UpdateOne (update1_fails d) jobID
                 [Set_status StatusProcessing, Set_updatedAt (now1 d)] s of
            (Some e, s1) \<Rightarrow> log_Printf (Failed_to_update_to_processing jobID) s1
          | (None, s1) \<Rightarrow>
             (let s2 = log_Printf (Processing_job jobID) s1 in
              if execution_fails job then
                (let newRetryCount = RetryCount job + 1;
                     update = [Set_status StatusFailed, Set_retryCount newRetryCount,
                               Set_updatedAt (now2 d)];
                     (e, s3) = UpdateOne (update2_fails d) jobID update s2;
                     s4 = (if e \<noteq> None then log_Printf (Failed_to_mark_as_failed jobID) s3
                           else s3);
                     s5 = log_Printf (Job_failed jobID newRetryCount) s4
                 in if sint newRetryCount < MaxRetries
                    then EnqueueJob jobID (log_Printf (Re_enqueueing_job jobID) s5)
                    else s5)
              else
                (case UpdateOne (update2_fails d) jobID
                        [Set_status StatusCompleted, Set_updatedAt (now2 d)] s2 of
                   (Some e, s3) \<Rightarrow> log_Printf (Failed_to_update_to_completed jobID) s3
                 | (None, s3) \<Rightarrow> log_Printf (Completed_job jobID) s3))))"

text \<open>\<open>updateStatus\<close> sets a status and the timestamp and ignores the error.\<close>

definition updateStatus :: "bool \<Rightarrow> Time \<Rightarrow> ObjectID \<Rightarrow> string \<Rightarrow> state \<Rightarrow> state" where
  "updateStatus fails now jobID status s =
     snd (UpdateOne fails jobID [Set_status status, Set_updatedAt now] s)"

section \<open>The HTTP handlers (handlers/job_handler.go)\<close>

text \<open>A request carries its method and, for \<open>CreateJob\<close>, what decoding the JSON body
  gives (\<open>None\<close> when the decoder fails). A response is either \<open>http.Error\<close> with its
  code, or a status code with the JSON-encoded value.\<close>

record CreateJobRequest =
  req_Type :: string
  req_Payload :: payload

record http_request =
  Method :: string
  Body :: "CreateJobRequest option"

datatype 'a http_response = HttpError nat string | Json nat 'a

text \<open>What the environment gives one \<open>CreateJob\<close>: the identifier from
  \<open>primitive.NewObjectID()\<close>, the two readings of the clock, and whether the insert fails.\<close>

record creation =
  NewObjectID :: ObjectID
  created_now :: Time
  updated_now :: Time
  insert_fails :: bool

definition CreateJob :: "creation \<Rightarrow> http_request \<Rightarrow> state \<Rightarrow> Job http_response \<times> state" where
  "CreateJob c r s =
     (if Method r \<noteq> ''POST'' then (HttpError 405 ''Method not allowed'', s)
      else case Body r of
        None \<Rightarrow> (HttpError 400 ''Invalid request body'', s)
      | Some req \<Rightarrow>
          if req_Type req = [] \<or> req_Payload req = []
          then (HttpError 400 ''Type and payload are required'', s)
          else
            (let job = \<lparr>ID = NewObjectID c, Type = req_Type req, Payload = req_Payload req,
                        RetryCount = 0, Status = StatusPending,
                        CreatedAt = created_now c, UpdatedAt = updated_now c\<rparr>
             in case InsertOne (insert_fails c) job s of
                  (Inl e, s1) \<Rightarrow>
                    (HttpError 500 ''Failed to create job'', log_Printf Failed_to_insert_job s1)
                | (Inr jobID, s1) \<Rightarrow>
                    (Json 201 (job\<lparr>ID := jobID\<rparr>), EnqueueJob jobID s1)))"

record listing =
  query_fails :: bool
  decode_fails :: bool

definition ListJobs :: "listing \<Rightarrow> string \<Rightarrow> state \<Rightarrow> Job list http_response \<times> state" where
  "ListJobs l method s =
     (if method \<noteq> ''GET'' then (HttpError 405 ''Method not allowed'', s)
      else case Find (query_fails l) 50 (- 1) s of
        Inl e \<Rightarrow> (HttpError 500 ''Failed to retrieve jobs'', log_Printf Failed_to_query_jobs s)
      | Inr cursor \<Rightarrow>
          if decode_fails l
          then (HttpError 500 ''Failed to retrieve jobs'', log_Printf Failed_to_decode_jobs s)
          else (Json 200 cursor, s))"

section \<open>The worker pool\<close>

text \<open>
  The whole service: the memory above, whether \<open>stopChan\<close> has been closed, and one entry
  for every worker goroutine that \<open>Start\<close> has launched. A goroutine is launched, then
  logs that it started and is at the \<open>select\<close> of its loop (about to evaluate it, or
  waiting in it), and has returned once it took the \<open>stopChan\<close> case.

  A delivery runs \<open>processJob\<close> in one step. Two deliveries of different identifiers
  touch different documents, and two deliveries of one identifier do not overlap as long
  as the identifier is in the channel at most once, which the invariant below
  establishes for every run.
\<close>

datatype goroutine = Launched | In_select | Returned

record system =
  mem :: state
  stopChan_closed :: bool
  workers :: "goroutine list"
  queueSize :: nat
  numWorkers :: nat

definition NewJobWorker :: "Job list \<Rightarrow> nat \<Rightarrow> nat \<Rightarrow> system" where
  "NewJobWorker jobsCollection qsize n =
     \<lparr>mem = \<lparr>jobsCol = jobsCollection, jobQueue = [], trace = []\<rparr>,
      stopChan_closed = False, workers = [], queueSize = qsize, numWorkers = n\<rparr>"

text \<open>
  The actions of a run. \<open>Worker_receive w d\<close> is worker \<open>w\<close> taking the \<open>jobQueue\<close> case
  of its \<open>select\<close> and processing the identifier; \<open>Worker_stop w\<close> is it taking the
  \<open>stopChan\<close> case. When both cases are ready Go chooses one of them at random, so both
  actions are possible then. \<open>step\<close> is \<open>None\<close> when the action cannot happen in the
  state: a receive on an empty channel blocks, and closing a closed channel panics.
\<close>

datatype action =
    Start
  | Worker_begin nat
  | Worker_receive nat delivery
  | Worker_stop nat
  | Stop
  | Submit creation http_request

definition worker_id :: "system \<Rightarrow> nat \<Rightarrow> nat" where
  "worker_id sys w = w mod numWorkers sys + 1"

definition in_select :: "system \<Rightarrow> nat \<Rightarrow> bool" where
  "in_select sys w = (w < length (workers sys) \<and> workers sys ! w = In_select)"

fun step :: "action \<Rightarrow> system \<Rightarrow> system option" where
  "step Start sys =
     Some (sys\<lparr>mem := log_Printf (Starting_job_workers (numWorkers sys)) (mem sys),
               workers := workers sys @ replicate (numWorkers sys) Launched\<rparr>)"
| "step (Worker_begin w) sys =
     (if w < length (workers sys) \<and> workers sys ! w = Launched
      then Some (sys\<lparr>mem := log_Printf (Worker_started (worker_id sys w)) (mem sys),
                     workers := (workers sys)[w := In_select]\<rparr>)
      else None)"
| "step (Worker_receive w d) sys =
     (if in_select sys w
      then (case jobQueue (mem sys) of
              [] \<Rightarrow> None
            | jobID # rest \<Rightarrow>
                Some (sys\<lparr>mem := processJob d jobID ((mem sys)\<lparr>jobQueue := rest\<rparr>)\<rparr>))
      else None)"
| "step (Worker_stop w) sys =
     (if in_select sys w \<and> stopChan_closed sys
      then Some (sys\<lparr>mem := log_Printf (Worker_stopped (worker_id sys w)) (mem sys),
                     workers := (workers sys)[w := Returned]\<rparr>)
      else None)"
| "step Stop sys =
     (if stopChan_closed sys then None
      else Some (sys\<lparr>mem := log_Printf Stopping_all_workers (mem sys),
                     stopChan_closed := True\<rparr>))"
| "step (Submit c r) sys = Some (sys\<lparr>mem := snd (CreateJob c r (mem sys))\<rparr>)"

fun run :: "action list \<Rightarrow> system \<Rightarrow> system option" where
  "run [] sys = Some sys"
| "run (a # as) sys = (case step a sys of None \<Rightarrow> None | Some sys' \<Rightarrow> run as sys')"

section \<open>Observations\<close>

text \<open>The record a fetch of an identifier returns; what one delivery appends to the
  trace; the \<open>UpdateOne\<close> calls and the sends in a piece of trace, in order.\<close>

definition record_of :: "ObjectID \<Rightarrow> state \<Rightarrow> Job option" where
  "record_of i s = find (\<lambda>j. ID j = i) (jobsCol s)"

definition effects :: "delivery \<Rightarrow> ObjectID \<Rightarrow> state \<Rightarrow> event list" where
  "effects d jobID s = drop (length (trace s)) (trace (processJob d jobID s))"

fun writes :: "event list \<Rightarrow> (ObjectID \<times> set_field list \<times> bool) list" where
  "writes [] = []"
| "writes (Update i u failed # es) = (i, u, failed) # writes es"
| "writes (e # es) = writes es"

fun enqueues :: "event list \<Rightarrow> ObjectID list" where
  "enqueues [] = []"
| "enqueues (Enqueue i # es) = i # enqueues es"
| "enqueues (e # es) = enqueues es"

text \<open>The number of \<open>Submit\<close> actions of a run that \<open>CreateJob\<close> answered with 201.\<close>

fun accepted :: "action list \<Rightarrow> system \<Rightarrow> nat" where
  "accepted [] sys = 0"
| "accepted (a # as) sys =
     (case step a sys of
        None \<Rightarrow> 0
      | Some sys' \<Rightarrow>
          (case a of
             Submit c r \<Rightarrow> (case fst (CreateJob c r (mem sys)) of Json code job \<Rightarrow> 1 | _ \<Rightarrow> 0)
           | _ \<Rightarrow> 0) + accepted as sys')"

text \<open>A record's retry count is within its bounds. The single-delivery discipline: no
  identifier is in the channel twice, every identifier in the channel has its record,
  and a record whose identifier is in the channel has retries left.\<close>

definition retry_bounded :: "Job \<Rightarrow> bool" where
  "retry_bounded j = (0 \<le> sint (RetryCount j) \<and> sint (RetryCount j) \<le> MaxRetries)"

definition has_retries_left :: "Job \<Rightarrow> bool" where
  "has_retries_left j = (0 \<le> sint (RetryCount j) \<and> sint (RetryCount j) < MaxRetries)"

definition disciplined :: "state \<Rightarrow> bool" where
  "disciplined s =
     (distinct (jobQueue s)
      \<and> (\<forall>i\<in>set (jobQueue s). find (\<lambda>j. ID j = i) (jobsCol s) \<noteq> None)
      \<and> (\<forall>j\<in>set (jobsCol s).
            retry_bounded j \<and> (ID j \<in> set (jobQueue s) \<longrightarrow> has_retries_left j)))"

text \<open>The fields of a record that follow its lifecycle, and the writes in a piece of
  trace that set the status of an identifier's record to Completed.\<close>

fun lifecycle_field :: "set_field \<Rightarrow> bool" where
  "lifecycle_field (Set_status v) = True"
| "lifecycle_field (Set_retryCount v) = True"
| "lifecycle_field (Set_updatedAt v) = True"
| "lifecycle_field f = False"

definition completions :: "ObjectID \<Rightarrow> event list \<Rightarrow> (ObjectID \<times> set_field list \<times> bool) list" where
  "completions i es =
     filter (\<lambda>(i', u, failed). i' = i \<and> Set_status StatusCompleted \<in> set u) (writes es)"

text \<open>No call to the store fails during a delivery.\<close>

definition no_store_failure :: "delivery \<Rightarrow> bool" where
  "no_store_failure d = (\<not> find_fails d \<and> \<not> update1_fails d \<and> \<not> update2_fails d)"

text \<open>An action during which no call to the store fails in a delivery (a submission may
  still be refused or fail).\<close>

fun healthy_action :: "action \<Rightarrow> bool" where
  "healthy_action (Worker_receive w d) = no_store_failure d"
| "healthy_action a = True"

section \<open>Concrete scenarios\<close>

text \<open>A job whose payload is \<open>{"fail": true}\<close>, a delivery and a creation during which
  no call to the store fails, and the memory that holds one record.\<close>

definition fail_job :: Job where
  "fail_job = \<lparr>ID = 7, Type = ''email'', Payload = [(''fail'', IBool True)], RetryCount = 0,
                Status = StatusPending, CreatedAt = 10, UpdatedAt = 11\<rparr>"

definition healthy :: delivery where
  "healthy = \<lparr>find_fails = False, update1_fails = False, now1 = 20,
              update2_fails = False, now2 = 30\<rparr>"

definition holding :: "Job \<Rightarrow> state" where
  "holding j = \<lparr>jobsCol = [j], jobQueue = [], trace = []\<rparr>"

text \<open>A job that succeeds, and the request and the creation that submit a job.\<close>

definition ok_job :: Job where
  "ok_job = \<lparr>ID = 7, Type = ''email'', Payload = [(''fail'', IBool False)], RetryCount = 0,
              Status = StatusPending, CreatedAt = 10, UpdatedAt = 11\<rparr>"

definition post :: "payload \<Rightarrow> http_request" where
  "post p = \<lparr>Method = ''POST'', Body = Some \<lparr>req_Type = ''email'', req_Payload = p\<rparr>\<rparr>"

definition fresh :: "ObjectID \<Rightarrow> Time \<Rightarrow> creation" where
  "fresh i t = \<lparr>NewObjectID = i, created_now = t, updated_now = t + 1, insert_fails = False\<rparr>"

text \<open>The pool of two workers once the first is at its \<open>select\<close>; the same pool after
  the submission of \<open>fail_job\<close> and one delivery, and after three deliveries.\<close>

definition started_pool :: system where
  "started_pool =
     \<lparr>mem = \<lparr>jobsCol = [], jobQueue = [],
              trace = [Log (Starting_job_workers 2), Log (Worker_started 1)]\<rparr>,
      stopChan_closed = False, workers = [In_select, Launched],
      queueSize = 100, numWorkers = 2\<rparr>"

definition retried_pool :: system where
  "retried_pool =
     \<lparr>mem = \<lparr>jobsCol = [fail_job\<lparr>RetryCount := 1, Status := StatusFailed, UpdatedAt := 30\<rparr>],
              jobQueue = [7],
              trace = [Log (Starting_job_workers 2), Log (Worker_started 1), Enqueue 7,
                       Update 7 [Set_status StatusProcessing, Set_updatedAt 20] False,
                       Log (Processing_job 7),
                       Update 7 [Set_status StatusFailed, Set_retryCount 1, Set_updatedAt 30] False,
                       Log (Job_failed 7 1), Log (Re_enqueueing_job 7), Enqueue 7]\<rparr>,
      stopChan_closed = False, workers = [In_select, Launched],
      queueSize = 100, numWorkers = 2\<rparr>"

definition exhausted_pool :: system where
  "exhausted_pool =
     \<lparr>mem = \<lparr>jobsCol = [fail_job\<lparr>RetryCount := 3, Status := StatusFailed, UpdatedAt := 30\<rparr>],
              jobQueue = [],
              trace = [Log (Starting_job_workers 2), Log (Worker_started 1), Enqueue 7,
                       Update 7 [Set_status StatusProcessing, Set_updatedAt 20] False,
                       Log (Processing_job 7),
                       Update 7 [Set_status StatusFailed, Set_retryCount 1, Set_updatedAt 30] False,
                       Log (Job_failed 7 1), Log (Re_enqueueing_job 7), Enqueue 7,
                       Update 7 [Set_status StatusProcessing, Set_updatedAt 20] False,
                       Log (Processing_job 7),
                       Update 7 [Set_status StatusFailed, Set_retryCount 2, Set_updatedAt 30] False,
                       Log (Job_failed 7 2), Log (Re_enqueueing_job 7), Enqueue 7,
                       Update 7 [Set_status StatusProcessing, Set_updatedAt 20] False,
                       Log (Processing_job 7),
                       Update 7 [Set_status StatusFailed, Set_retryCount 3, Set_updatedAt 30] False,
                       Log (Job_failed 7 3)]\<rparr>,
      stopChan_closed = False, workers = [In_select, Launched],
      queueSize = 100, numWorkers = 2\<rparr>"

text \<open>The pool after \<open>Start\<close>, the first worker reaching its \<open>select\<close>, the submission
  of \<open>ok_job\<close> and \<open>Stop\<close>: the stop signal is raised while the identifier is buffered.\<close>

definition stopped_pool :: system where
  "stopped_pool =
     \<lparr>mem = \<lparr>jobsCol = [ok_job], jobQueue = [7],
              trace = [Log (Starting_job_workers 2), Log (Worker_started 1), Enqueue 7,
                       Log Stopping_all_workers]\<rparr>,
      stopChan_closed = True, workers = [In_select, Launched],
      queueSize = 100, numWorkers = 2\<rparr>"

text \<open>From \<open>stopped_pool\<close>: the first worker takes the \<open>jobQueue\<close> case after the stop
  signal, or it takes the \<open>stopChan\<close> case.\<close>

definition received_after_stop :: system where
  "received_after_stop =
     \<lparr>mem = \<lparr>jobsCol = [ok_job\<lparr>Status := StatusCompleted, UpdatedAt := 30\<rparr>], jobQueue = [],
              trace = [Log (Starting_job_workers 2), Log (Worker_started 1), Enqueue 7,
                       Log Stopping_all_workers,
                       Update 7 [Set_status StatusProcessing, Set_updatedAt 20] False,
                       Log (Processing_job 7),
                       Update 7 [Set_status StatusCompleted, Set_updatedAt 30] False,
                       Log (Completed_job 7)]\<rparr>,
      stopChan_closed = True, workers = [In_select, Launched],
      queueSize = 100, numWorkers = 2\<rparr>"

definition returned_after_stop :: system where
  "returned_after_stop =
     \<lparr>mem = \<lparr>jobsCol = [ok_job], jobQueue = [7],
              trace = [Log (Starting_job_workers 2), Log (Worker_started 1), Enqueue 7,
                       Log Stopping_all_workers, Log (Worker_stopped 1)]\<rparr>,
      stopChan_closed = True, workers = [Returned, Launched],
      queueSize = 100, numWorkers = 2\<rparr>"

text \<open>Sixty submissions of jobs with distinct identifiers and creation times, and a list
  query during which the store does not fail.\<close>

definition sixty_submissions :: "action list" where
  "sixty_submissions = map (\<lambda>k. Submit (fresh k (100 + k)) (post [(''fail'', IBool False)])) [1..<61]"

definition answering :: listing where
  "answering = \<lparr>query_fails = False, decode_fails = False\<rparr>"

section \<open>Lemmas on the collection\<close>

lemma sint_succ:
  fixes x :: "64 word"
  assumes "sint x < 2 ^ 63 - 1"
  shows "sint (x + 1) = sint x + 1"
proof -
  have lo: "- (2 ^ 63) \<le> sint x" using sint_greater_eq [of x] by simp
  have "sint (x + 1) = signed_take_bit 63 (sint x + 1)"
    by (simp add: sint_word_ariths)
  also have "\<dots> = sint x + 1"
    using lo assms by (intro signed_take_bit_int_eq_self) auto
  finally show ?thesis .
qed

lemma ID_apply_set [simp]: "ID (apply_set f j) = ID j"
  by (cases f) simp_all

lemma ID_set_fields [simp]: "ID (set_fields u j) = ID j"
  unfolding set_fields_def by (induction u arbitrary: j) simp_all

lemma find_update_first_same:
  "(\<And>j. ID (f j) = ID j) \<Longrightarrow>
   find (\<lambda>j. ID j = i) (update_first i f js) = map_option f (find (\<lambda>j. ID j = i) js)"
  by (induction js) simp_all

lemma find_update_first_other:
  "(\<And>j. ID (f j) = ID j) \<Longrightarrow> i' \<noteq> i \<Longrightarrow>
   find (\<lambda>j. ID j = i') (update_first i f js) = find (\<lambda>j. ID j = i') js"
  by (induction js) simp_all

lemma length_update_first [simp]: "length (update_first i f js) = length js"
  by (induction js) simp_all

lemma map_update_first:
  "(\<And>j. g (f j) = g j) \<Longrightarrow> map g (update_first i f js) = map g js"
  by (induction js) simp_all

lemma processJob_not_fetched:
  assumes "FindOne (find_fails d) jobID s = Inl e"
  shows "processJob d jobID s = s\<lparr>trace := trace s @ [Log (Failed_to_find_job jobID)]\<rparr>"
  using assms by (simp add: processJob_def log_Printf_def)

lemma processJob_update1_failed:
  assumes "FindOne (find_fails d) jobID s = Inr job" "update1_fails d"
  shows "processJob d jobID s =
    s\<lparr>trace := trace s @ [Update jobID [Set_status StatusProcessing, Set_updatedAt (now1 d)] True,
         Log (Failed_to_update_to_processing jobID)]\<rparr>"
  using assms by (simp add: processJob_def log_Printf_def UpdateOne_def)

lemma processJob_execution_failed:
  assumes "FindOne (find_fails d) jobID s = Inr job" "\<not> update1_fails d" "execution_fails job"
  shows "processJob d jobID s =
    s\<lparr>jobsCol :=
        (if update2_fails d then update_first jobID (set_fields [Set_status StatusProcessing, Set_updatedAt (now1 d)]) (jobsCol s)
         else update_first jobID (set_fields [Set_status StatusFailed, Set_retryCount (RetryCount job + 1), Set_updatedAt (now2 d)])
               (update_first jobID (set_fields [Set_status StatusProcessing, Set_updatedAt (now1 d)]) (jobsCol s))),
      jobQueue := (if sint (RetryCount job + 1) < MaxRetries then jobQueue s @ [jobID] else jobQueue s),
      trace := trace s @
        [Update jobID [Set_status StatusProcessing, Set_updatedAt (now1 d)] False,
         Log (Processing_job jobID),
         Update jobID [Set_status StatusFailed, Set_retryCount (RetryCount job + 1), Set_updatedAt (now2 d)] (update2_fails d)] @
        (if update2_fails d then [Log (Failed_to_mark_as_failed jobID)] else []) @
        [Log (Job_failed jobID (RetryCount job + 1))] @
        (if sint (RetryCount job + 1) < MaxRetries then [Log (Re_enqueueing_job jobID), Enqueue jobID] else [])\<rparr>"
  using assms by (simp add: processJob_def log_Printf_def UpdateOne_def EnqueueJob_def Let_def)

lemma processJob_execution_succeeded:
  assumes "FindOne (find_fails d) jobID s = Inr job" "\<not> update1_fails d" "\<not> execution_fails job"
  shows "processJob d jobID s =
    s\<lparr>jobsCol :=
        (if update2_fails d then update_first jobID (set_fields [Set_status StatusProcessing, Set_updatedAt (now1 d)]) (jobsCol s)
         else update_first jobID (set_fields [Set_status StatusCompleted, Set_updatedAt (now2 d)])
               (update_first jobID (set_fields [Set_status StatusProcessing, Set_updatedAt (now1 d)]) (jobsCol s))),
      trace := trace s @
        [Update jobID [Set_status StatusProcessing, Set_updatedAt (now1 d)] False,
         Log (Processing_job jobID),
         Update jobID [Set_status StatusCompleted, Set_updatedAt (now2 d)] (update2_fails d),
         Log (if update2_fails d then Failed_to_update_to_completed jobID else Completed_job jobID)]\<rparr>"
  using assms by (simp add: processJob_def log_Printf_def UpdateOne_def EnqueueJob_def Let_def)

lemma set_fields_processing [simp]:
  "set_fields [Set_status a, Set_updatedAt b] j = j\<lparr>Status := a, UpdatedAt := b\<rparr>"
  by (simp add: set_fields_def)

lemma set_fields_failed [simp]:
  "set_fields [Set_status a, Set_retryCount n, Set_updatedAt b] j =
     j\<lparr>Status := a, RetryCount := n, UpdatedAt := b\<rparr>"
  by (simp add: set_fields_def)

lemma FindOne_Inr: "FindOne fails i s = Inr job \<Longrightarrow> find (\<lambda>j. ID j = i) (jobsCol s) = Some job"
  by (auto simp: FindOne_def split: if_splits option.splits)

lemma find_snoc:
  "find P (xs @ [y]) = (case find P xs of None \<Rightarrow> (if P y then Some y else None) | Some x \<Rightarrow> Some x)"
  by (induction xs) simp_all

lemma CreateJob_created:
  assumes "fst (CreateJob c r s) = Json code job"
  shows "CreateJob c r s =
           (Json 201 job,
            s\<lparr>jobsCol := jobsCol s @ [job], jobQueue := jobQueue s @ [ID job],
              trace := trace s @ [Enqueue (ID job)]\<rparr>)
       \<and> find (\<lambda>j. ID j = ID job) (jobsCol s) = None
       \<and> (\<exists>req. Body r = Some req \<and>
            job = \<lparr>ID = NewObjectID c, Type = req_Type req, Payload = req_Payload req,
                   RetryCount = 0, Status = StatusPending,
                   CreatedAt = created_now c, UpdatedAt = updated_now c\<rparr>)"
  using assms
  by (auto simp: CreateJob_def InsertOne_def EnqueueJob_def Let_def
      split: if_splits option.splits)

lemma CreateJob_rejected:
  assumes "fst (CreateJob c r s) = HttpError code msg"
  shows "jobsCol (snd (CreateJob c r s)) = jobsCol s
       \<and> jobQueue (snd (CreateJob c r s)) = jobQueue s
       \<and> (trace (snd (CreateJob c r s)) = trace s
          \<or> trace (snd (CreateJob c r s)) = trace s @ [Log Failed_to_insert_job])"
  using assms
  by (auto simp: CreateJob_def InsertOne_def EnqueueJob_def log_Printf_def Let_def
      split: if_splits option.splits)

lemma Status_distinct [simp]:
  "StatusProcessing \<noteq> StatusCompleted" "StatusFailed \<noteq> StatusCompleted"
  "StatusPending \<noteq> StatusCompleted"
  "StatusCompleted \<noteq> StatusProcessing" "StatusCompleted \<noteq> StatusFailed"
  "StatusCompleted \<noteq> StatusPending"
  by (simp_all add: StatusProcessing_def StatusCompleted_def StatusFailed_def StatusPending_def)

section \<open>One delivery\<close>

text \<open>
  C7. A delivery whose fetch finds no record with the identifier logs one line and ends:
  the collection and the channel are as before, no \<open>UpdateOne\<close> is issued and nothing is
  sent to the channel.
\<close>

theorem not_found_delivery_is_dropped:
  assumes "find (\<lambda>j. ID j = jobID) (jobsCol s) = None"
  shows "jobsCol (processJob d jobID s) = jobsCol s
       \<and> jobQueue (processJob d jobID s) = jobQueue s
       \<and> effects d jobID s = [Log (Failed_to_find_job jobID)]
       \<and> writes (effects d jobID s) = [] \<and> enqueues (effects d jobID s) = []"
proof -
  have "\<exists>e. FindOne (find_fails d) jobID s = Inl e"
    using assms by (simp add: FindOne_def)
  then obtain e where "FindOne (find_fails d) jobID s = Inl e" ..
  from processJob_not_fetched [OF this] show ?thesis
    by (simp add: effects_def)
qed

theorem not_found_delivery_is_dropped_witness:
  "find (\<lambda>j. ID j = 8) (jobsCol (holding fail_job)) = None
   \<and> jobsCol (processJob healthy 8 (holding fail_job)) = [fail_job]
   \<and> effects healthy 8 (holding fail_job) = [Log (Failed_to_find_job 8)]"
proof -
  have h: "find (\<lambda>j. ID j = 8) (jobsCol (holding fail_job)) = None"
    by (simp add: holding_def fail_job_def)
  from not_found_delivery_is_dropped [OF h, of healthy] h show ?thesis
    by (simp add: holding_def)
qed

text \<open>
  C1. In a delivery that reaches the execution (the record was fetched and the write of
  Processing succeeded) and whose execution reports failure, the processor issues, after
  the write of Processing, exactly one more write: status Failed, retryCount the fetched
  one plus 1 (Go's \<open>+ 1\<close> on a 64-bit \<open>int\<close>, which is the integer successor below the
  largest \<open>int\<close>) and updatedAt the reading of the clock. When that write succeeds the
  record holds exactly these values. The identifier is sent to the channel once if the
  incremented retryCount is less than MaxRetries, and not at all otherwise.
\<close>

theorem failed_execution_counts_and_retries:
  assumes "FindOne (find_fails d) jobID s = Inr job"
    and "\<not> update1_fails d"
    and "execution_fails job"
  shows "writes (effects d jobID s) =
           [(jobID, [Set_status StatusProcessing, Set_updatedAt (now1 d)], False),
            (jobID, [Set_status StatusFailed, Set_retryCount (RetryCount job + 1),
                     Set_updatedAt (now2 d)], update2_fails d)]
       \<and> (\<not> update2_fails d \<longrightarrow>
            record_of jobID (processJob d jobID s) =
              Some (job\<lparr>Status := StatusFailed, RetryCount := RetryCount job + 1,
                        UpdatedAt := now2 d\<rparr>))
       \<and> (sint (RetryCount job) < 2 ^ 63 - 1 \<longrightarrow>
            sint (RetryCount job + 1) = sint (RetryCount job) + 1)
       \<and> enqueues (effects d jobID s) =
           (if sint (RetryCount job + 1) < MaxRetries then [jobID] else [])
       \<and> jobQueue (processJob d jobID s) = jobQueue s @ enqueues (effects d jobID s)"
proof -
  note eq = processJob_execution_failed [OF assms]
  have found: "find (\<lambda>j. ID j = jobID) (jobsCol s) = Some job"
    using assms(1) by (rule FindOne_Inr)
  have w: "writes (effects d jobID s) =
           [(jobID, [Set_status StatusProcessing, Set_updatedAt (now1 d)], False),
            (jobID, [Set_status StatusFailed, Set_retryCount (RetryCount job + 1),
                     Set_updatedAt (now2 d)], update2_fails d)]"
    by (simp add: eq effects_def)
  have r: "\<not> update2_fails d \<longrightarrow>
            record_of jobID (processJob d jobID s) =
              Some (job\<lparr>Status := StatusFailed, RetryCount := RetryCount job + 1,
                        UpdatedAt := now2 d\<rparr>)"
    by (simp add: eq record_of_def find_update_first_same found)
  have q: "enqueues (effects d jobID s) =
           (if sint (RetryCount job + 1) < MaxRetries then [jobID] else [])"
    by (simp add: eq effects_def)
  have q': "jobQueue (processJob d jobID s) = jobQueue s @ enqueues (effects d jobID s)"
    unfolding q by (simp add: eq)
  from w r q q' sint_succ show ?thesis by blast
qed

theorem failed_execution_counts_and_retries_witness:
  "FindOne (find_fails healthy) 7 (holding fail_job) = Inr fail_job
   \<and> \<not> update1_fails healthy \<and> execution_fails fail_job
   \<and> record_of 7 (processJob healthy 7 (holding fail_job)) =
        Some (fail_job\<lparr>Status := StatusFailed, RetryCount := 1, UpdatedAt := 30\<rparr>)
   \<and> jobQueue (processJob healthy 7 (holding fail_job)) = [7]"
proof -
  have h1: "FindOne (find_fails healthy) 7 (holding fail_job) = Inr fail_job"
    by (simp add: FindOne_def healthy_def holding_def fail_job_def)
  have h2: "\<not> update1_fails healthy" by (simp add: healthy_def)
  have h3: "execution_fails fail_job" by (simp add: execution_fails_def fail_job_def)
  have h4: "RetryCount fail_job = 0" "jobQueue (holding fail_job) = []"
    "\<not> update2_fails healthy" "now2 healthy = 30"
    by (simp_all add: fail_job_def holding_def healthy_def)
  from failed_execution_counts_and_retries [OF h1 h2 h3] h1 h2 h3 show ?thesis
    by (simp add: h4 MaxRetries_def)
qed

text \<open>
  C5. In a delivery that reaches the execution and whose execution reports success, the
  processor issues, after the write of Processing, exactly one more write: status
  Completed and updatedAt the reading of the clock. When that write succeeds the record
  holds these values. Whether it succeeds or not, the record's retryCount is the fetched
  one (0 for a job that never failed), nothing is sent to the channel and the channel is
  as before.
\<close>

theorem successful_execution_completes_once:
  assumes "FindOne (find_fails d) jobID s = Inr job"
    and "\<not> update1_fails d"
    and "\<not> execution_fails job"
  shows "writes (effects d jobID s) =
           [(jobID, [Set_status StatusProcessing, Set_updatedAt (now1 d)], False),
            (jobID, [Set_status StatusCompleted, Set_updatedAt (now2 d)], update2_fails d)]
       \<and> (\<not> update2_fails d \<longrightarrow>
            record_of jobID (processJob d jobID s) =
              Some (job\<lparr>Status := StatusCompleted, UpdatedAt := now2 d\<rparr>))
       \<and> map_option RetryCount (record_of jobID (processJob d jobID s)) = Some (RetryCount job)
       \<and> length (completions jobID (effects d jobID s)) = 1
       \<and> enqueues (effects d jobID s) = []
       \<and> jobQueue (processJob d jobID s) = jobQueue s"
proof -
  note eq = processJob_execution_succeeded [OF assms]
  have found: "find (\<lambda>j. ID j = jobID) (jobsCol s) = Some job"
    using assms(1) by (rule FindOne_Inr)
  show ?thesis
    by (simp add: eq effects_def record_of_def find_update_first_same found completions_def)
qed

theorem successful_execution_completes_once_witness:
  "FindOne (find_fails healthy) 7 (holding (fail_job\<lparr>Payload := [(''fail'', IBool False)]\<rparr>)) =
     Inr (fail_job\<lparr>Payload := [(''fail'', IBool False)]\<rparr>)
   \<and> \<not> update1_fails healthy
   \<and> \<not> execution_fails (fail_job\<lparr>Payload := [(''fail'', IBool False)]\<rparr>)
   \<and> record_of 7 (processJob healthy 7 (holding (fail_job\<lparr>Payload := [(''fail'', IBool False)]\<rparr>))) =
        Some (fail_job\<lparr>Payload := [(''fail'', IBool False)], Status := StatusCompleted,
                       UpdatedAt := 30\<rparr>)
   \<and> jobQueue (processJob healthy 7 (holding (fail_job\<lparr>Payload := [(''fail'', IBool False)]\<rparr>))) = []"
proof -
  let ?j = "fail_job\<lparr>Payload := [(''fail'', IBool False)]\<rparr>"
  have h1: "FindOne (find_fails healthy) 7 (holding ?j) = Inr ?j"
    by (simp add: FindOne_def healthy_def holding_def fail_job_def)
  have h2: "\<not> update1_fails healthy" by (simp add: healthy_def)
  have h3: "\<not> execution_fails ?j" by (simp add: execution_fails_def fail_job_def)
  have h4: "jobQueue (holding ?j) = []" "\<not> update2_fails healthy" "now2 healthy = 30"
    by (simp_all add: holding_def healthy_def)
  from successful_execution_completes_once [OF h1 h2 h3] h1 h2 h3 show ?thesis
    by (simp add: h4)
qed

text \<open>
  C10. For a fetched record, the execution reports failure exactly when the payload maps
  \<open>fail\<close> to the boolean true. In a delivery that reaches the execution, the second write
  is the one of Failed in that case, and the one of Completed in every other: no \<open>fail\<close>
  key, the boolean false, or a value of another type such as the string \<open>true\<close>.
\<close>

theorem execution_fails_iff_fail_is_true:
  assumes "FindOne (find_fails d) jobID s = Inr job"
    and "\<not> update1_fails d"
  shows "(execution_fails job \<longleftrightarrow> map_of (Payload job) ''fail'' = Some (IBool True))
       \<and> map (\<lambda>(i, u, failed). u) (writes (effects d jobID s)) =
           [[Set_status StatusProcessing, Set_updatedAt (now1 d)],
            if map_of (Payload job) ''fail'' = Some (IBool True)
            then [Set_status StatusFailed, Set_retryCount (RetryCount job + 1),
                  Set_updatedAt (now2 d)]
            else [Set_status StatusCompleted, Set_updatedAt (now2 d)]]"
proof -
  have iff: "execution_fails job \<longleftrightarrow> map_of (Payload job) ''fail'' = Some (IBool True)"
    by (auto simp: execution_fails_def split: option.splits iface.splits)
  show ?thesis
  proof (cases "execution_fails job")
    case True
    from processJob_execution_failed [OF assms True] iff True show ?thesis
      by (simp add: effects_def)
  next
    case False
    from processJob_execution_succeeded [OF assms False] iff False show ?thesis
      by (simp add: effects_def)
  qed
qed

theorem execution_fails_iff_fail_is_true_witness:
  "FindOne (find_fails healthy) 7 (holding (fail_job\<lparr>Payload := [(''fail'', IString ''true'')]\<rparr>)) =
     Inr (fail_job\<lparr>Payload := [(''fail'', IString ''true'')]\<rparr>)
   \<and> \<not> update1_fails healthy
   \<and> \<not> execution_fails (fail_job\<lparr>Payload := [(''fail'', IString ''true'')]\<rparr>)
   \<and> map (\<lambda>(i, u, failed). u)
         (writes (effects healthy 7 (holding (fail_job\<lparr>Payload := [(''fail'', IString ''true'')]\<rparr>)))) =
       [[Set_status StatusProcessing, Set_updatedAt 20],
        [Set_status StatusCompleted, Set_updatedAt 30]]"
proof -
  let ?j = "fail_job\<lparr>Payload := [(''fail'', IString ''true'')]\<rparr>"
  have h1: "FindOne (find_fails healthy) 7 (holding ?j) = Inr ?j"
    by (simp add: FindOne_def healthy_def holding_def fail_job_def)
  have h2: "\<not> update1_fails healthy" by (simp add: healthy_def)
  have h3: "map_of (Payload ?j) ''fail'' = Some (IString ''true'')" by simp
  have h4: "now1 healthy = 20" "now2 healthy = 30" by (simp_all add: healthy_def)
  from execution_fails_iff_fail_is_true [OF h1 h2] h1 h2 show ?thesis
    by (simp add: h3 h4)
qed

lemma filter_update_first:
  "(\<And>j. ID (f j) = ID j) \<Longrightarrow>
   filter (\<lambda>j. ID j \<noteq> i) (update_first i f js) = filter (\<lambda>j. ID j \<noteq> i) js"
  by (induction js) simp_all

lemma processJob_cases [consumes 0, case_names not_fetched update1_failed failed succeeded]:
  assumes "\<And>e. FindOne (find_fails d) jobID s = Inl e \<Longrightarrow> P"
    and "\<And>job. FindOne (find_fails d) jobID s = Inr job \<Longrightarrow> update1_fails d \<Longrightarrow> P"
    and "\<And>job. FindOne (find_fails d) jobID s = Inr job \<Longrightarrow> \<not> update1_fails d \<Longrightarrow>
           execution_fails job \<Longrightarrow> P"
    and "\<And>job. FindOne (find_fails d) jobID s = Inr job \<Longrightarrow> \<not> update1_fails d \<Longrightarrow>
           \<not> execution_fails job \<Longrightarrow> P"
  shows P
  using assms by (cases "FindOne (find_fails d) jobID s") blast+

lemma map_jobsCol_processJob:
  assumes "\<And>j a. g (j\<lparr>Status := a\<rparr>) = g j"
    and "\<And>j n. g (j\<lparr>RetryCount := n\<rparr>) = g j"
    and "\<And>j t. g (j\<lparr>UpdatedAt := t\<rparr>) = g j"
  shows "map g (jobsCol (processJob d jobID s)) = map g (jobsCol s)"
proof (cases rule: processJob_cases [of d jobID s])
  case (not_fetched e)
  then show ?thesis by (simp add: processJob_not_fetched)
next
  case (update1_failed job)
  then show ?thesis by (simp add: processJob_update1_failed)
next
  case (failed job)
  then show ?thesis by (simp add: processJob_execution_failed map_update_first assms)
next
  case (succeeded job)
  then show ?thesis by (simp add: processJob_execution_succeeded map_update_first assms)
qed

lemma filter_jobsCol_processJob:
  "filter (\<lambda>j. ID j \<noteq> jobID) (jobsCol (processJob d jobID s)) =
   filter (\<lambda>j. ID j \<noteq> jobID) (jobsCol s)"
proof (cases rule: processJob_cases [of d jobID s])
  case (not_fetched e)
  then show ?thesis by (simp add: processJob_not_fetched)
next
  case (update1_failed job)
  then show ?thesis by (simp add: processJob_update1_failed)
next
  case (failed job)
  then show ?thesis by (simp add: processJob_execution_failed filter_update_first)
next
  case (succeeded job)
  then show ?thesis by (simp add: processJob_execution_succeeded filter_update_first)
qed

text \<open>
  C8. A delivery leaves the identifier, the type, the payload and the creation time of
  every record as they were, keeps every record of the collection in its place (none is
  deleted), and leaves every record with another identifier entirely as it was; every
  write it issues is on the delivered identifier and sets only status, retryCount and
  updatedAt. \<open>updateStatus\<close> has the same frame, and \<open>CreateJob\<close> keeps every record
  that was there.
\<close>

theorem processing_frame:
  "map ID (jobsCol (processJob d jobID s)) = map ID (jobsCol s)
 \<and> map Type (jobsCol (processJob d jobID s)) = map Type (jobsCol s)
 \<and> map Payload (jobsCol (processJob d jobID s)) = map Payload (jobsCol s)
 \<and> map CreatedAt (jobsCol (processJob d jobID s)) = map CreatedAt (jobsCol s)
 \<and> filter (\<lambda>j. ID j \<noteq> jobID) (jobsCol (processJob d jobID s)) =
     filter (\<lambda>j. ID j \<noteq> jobID) (jobsCol s)
 \<and> list_all (\<lambda>(i, u, failed). i = jobID \<and> list_all lifecycle_field u)
     (writes (effects d jobID s))
 \<and> map ID (jobsCol (updateStatus fails now jobID status s)) = map ID (jobsCol s)
 \<and> map Type (jobsCol (updateStatus fails now jobID status s)) = map Type (jobsCol s)
 \<and> map Payload (jobsCol (updateStatus fails now jobID status s)) = map Payload (jobsCol s)
 \<and> map CreatedAt (jobsCol (updateStatus fails now jobID status s)) = map CreatedAt (jobsCol s)
 \<and> take (length (jobsCol s)) (jobsCol (snd (CreateJob c r s))) = jobsCol s"
proof -
  have u: "map g (jobsCol (updateStatus fails now jobID status s)) = map g (jobsCol s)"
    if "\<And>j a. g (j\<lparr>Status := a\<rparr>) = g j" "\<And>j t. g (j\<lparr>UpdatedAt := t\<rparr>) = g j" for g :: "Job \<Rightarrow> 'a"
    using that by (simp add: updateStatus_def UpdateOne_def map_update_first)
  have w: "list_all (\<lambda>(i, u, failed). i = jobID \<and> list_all lifecycle_field u)
     (writes (effects d jobID s))"
  proof (cases rule: processJob_cases [of d jobID s])
    case (not_fetched e)
    then show ?thesis by (simp add: processJob_not_fetched effects_def)
  next
    case (update1_failed job)
    then show ?thesis by (simp add: processJob_update1_failed effects_def)
  next
    case (failed job)
    then show ?thesis by (simp add: processJob_execution_failed effects_def)
  next
    case (succeeded job)
    then show ?thesis by (simp add: processJob_execution_succeeded effects_def)
  qed
  have c: "take (length (jobsCol s)) (jobsCol (snd (CreateJob c r s))) = jobsCol s"
  proof (cases "fst (CreateJob c r s)")
    case (HttpError code msg)
    from CreateJob_rejected [OF this] show ?thesis by simp
  next
    case (Json code job)
    from CreateJob_created [OF this] show ?thesis by simp
  qed
  show ?thesis
    by (intro conjI map_jobsCol_processJob filter_jobsCol_processJob u w c) simp_all
qed

text \<open>
  C3. The write of Failed is the one write whose failure does not end the attempt: with
  the write of Processing succeeding and the write of Failed failing, the delivery of a
  job with payload \<open>{"fail": true}\<close> and retryCount 0 logs the failure, then still logs
  the retry and sends the identifier to the channel, while the record keeps retryCount 0.
\<close>

theorem requeue_after_failed_write:
  "effects (healthy\<lparr>update2_fails := True\<rparr>) 7 (holding fail_job) =
     [Update 7 [Set_status StatusProcessing, Set_updatedAt 20] False,
      Log (Processing_job 7),
      Update 7 [Set_status StatusFailed, Set_retryCount 1, Set_updatedAt 30] True,
      Log (Failed_to_mark_as_failed 7),
      Log (Job_failed 7 1),
      Log (Re_enqueueing_job 7),
      Enqueue 7]
   \<and> jobQueue (processJob (healthy\<lparr>update2_fails := True\<rparr>) 7 (holding fail_job)) = [7]
   \<and> record_of 7 (processJob (healthy\<lparr>update2_fails := True\<rparr>) 7 (holding fail_job)) =
       Some (fail_job\<lparr>Status := StatusProcessing, UpdatedAt := 20\<rparr>)"
proof -
  have h1: "FindOne (find_fails (healthy\<lparr>update2_fails := True\<rparr>)) 7 (holding fail_job) = Inr fail_job"
    by (simp add: FindOne_def healthy_def holding_def fail_job_def)
  have h2: "\<not> update1_fails (healthy\<lparr>update2_fails := True\<rparr>)" by (simp add: healthy_def)
  have h3: "execution_fails fail_job" by (simp add: execution_fails_def fail_job_def)
  have h4: "RetryCount fail_job = 0" "ID fail_job = 7"
    by (simp_all add: fail_job_def)
  show ?thesis
    unfolding effects_def processJob_execution_failed [OF h1 h2 h3]
    by (simp add: h4 MaxRetries_def healthy_def holding_def record_of_def)
qed

section \<open>The single-delivery discipline is an invariant\<close>

lemma set_fields_status_fun [simp]:
  "set_fields [Set_status a, Set_updatedAt b] = (\<lambda>j. j\<lparr>Status := a, UpdatedAt := b\<rparr>)"
  by (rule ext) simp

lemma set_fields_retry_fun [simp]:
  "set_fields [Set_status a, Set_retryCount n, Set_updatedAt b] =
     (\<lambda>j. j\<lparr>Status := a, RetryCount := n, UpdatedAt := b\<rparr>)"
  by (rule ext) simp

lemma disciplined_iff:
  "disciplined s \<longleftrightarrow>
     distinct (jobQueue s)
     \<and> (\<forall>i\<in>set (jobQueue s). find (\<lambda>j. ID j = i) (jobsCol s) \<noteq> None)
     \<and> (\<forall>j\<in>set (jobsCol s). retry_bounded j \<and> (ID j \<in> set (jobQueue s) \<longrightarrow> has_retries_left j))"
  by (simp add: disciplined_def)

lemma update_first_Ball:
  "\<forall>j\<in>set js. P j \<Longrightarrow> \<forall>j\<in>set js. ID j = i \<longrightarrow> P (f j) \<Longrightarrow> \<forall>j\<in>set (update_first i f js). P j"
  by (induction js) auto

lemma find_update_first_None:
  "(\<And>j. ID (f j) = ID j) \<Longrightarrow>
   find (\<lambda>j. ID j = i') (update_first i f js) = None \<longleftrightarrow> find (\<lambda>j. ID j = i') js = None"
  by (cases "i' = i") (simp_all add: find_update_first_same find_update_first_other)

lemma find_Some_in: "find (\<lambda>j. ID j = i) js = Some job \<Longrightarrow> job \<in> set js \<and> ID job = i"
  by (auto simp: find_Some_iff)

lemma find_None_ID: "find (\<lambda>j. ID j = i) js = None \<longleftrightarrow> (\<forall>j\<in>set js. ID j \<noteq> i)"
  by (auto simp: find_None_iff)

lemma retry_step:
  assumes "has_retries_left job"
  shows "sint (RetryCount job + 1) = sint (RetryCount job) + 1"
  using assms by (intro sint_succ) (simp add: has_retries_left_def MaxRetries_def)

lemma disciplined_dequeue:
  assumes "disciplined (s\<lparr>jobQueue := jobID # rest\<rparr>)"
  shows "disciplined (s\<lparr>jobQueue := rest\<rparr>)"
  using assms by (auto simp: disciplined_iff)

lemma disciplined_update_status:
  assumes "disciplined s"
  shows "disciplined (s\<lparr>jobsCol := update_first i (\<lambda>j. j\<lparr>Status := a, UpdatedAt := b\<rparr>) (jobsCol s)\<rparr>)"
proof -
  have "\<forall>j\<in>set (update_first i (\<lambda>j. j\<lparr>Status := a, UpdatedAt := b\<rparr>) (jobsCol s)).
          retry_bounded j \<and> (ID j \<in> set (jobQueue s) \<longrightarrow> has_retries_left j)"
    using assms
    by (intro update_first_Ball) (auto simp: disciplined_iff retry_bounded_def has_retries_left_def)
  with assms show ?thesis
    by (simp add: disciplined_iff find_update_first_None)
qed

lemma disciplined_rotate:
  assumes "disciplined (s\<lparr>jobQueue := jobID # rest\<rparr>)"
  shows "disciplined (s\<lparr>jobQueue := rest @ [jobID]\<rparr>)"
  using assms by (simp add: disciplined_iff)

lemma disciplined_update_retry:
  assumes "disciplined s"
    and "0 \<le> sint n" and "sint n \<le> MaxRetries"
    and "i \<in> set (jobQueue s) \<Longrightarrow> sint n < MaxRetries"
  shows "disciplined (s\<lparr>jobsCol :=
           update_first i (\<lambda>j. j\<lparr>Status := a, RetryCount := n, UpdatedAt := b\<rparr>) (jobsCol s)\<rparr>)"
proof -
  have "\<forall>j\<in>set (update_first i (\<lambda>j. j\<lparr>Status := a, RetryCount := n, UpdatedAt := b\<rparr>) (jobsCol s)).
          retry_bounded j \<and> (ID j \<in> set (jobQueue s) \<longrightarrow> has_retries_left j)"
  proof (rule update_first_Ball)
    show "\<forall>j\<in>set (jobsCol s). retry_bounded j \<and> (ID j \<in> set (jobQueue s) \<longrightarrow> has_retries_left j)"
      using assms(1) by (simp add: disciplined_iff)
    show "\<forall>j\<in>set (jobsCol s). ID j = i \<longrightarrow>
            retry_bounded (j\<lparr>Status := a, RetryCount := n, UpdatedAt := b\<rparr>) \<and>
            (ID (j\<lparr>Status := a, RetryCount := n, UpdatedAt := b\<rparr>) \<in> set (jobQueue s) \<longrightarrow>
             has_retries_left (j\<lparr>Status := a, RetryCount := n, UpdatedAt := b\<rparr>))"
      using assms(2-4) by (simp add: retry_bounded_def has_retries_left_def)
  qed
  with assms(1) show ?thesis
    by (simp add: disciplined_iff find_update_first_None)
qed

lemma disciplined_processJob:
  assumes inv: "disciplined (s\<lparr>jobQueue := jobID # rest\<rparr>)"
  shows "disciplined (processJob d jobID (s\<lparr>jobQueue := rest\<rparr>))"
proof -
  let ?s = "s\<lparr>jobQueue := rest\<rparr>"
  have inv0: "disciplined ?s" using inv by (rule disciplined_dequeue)
  have fresh: "jobID \<notin> set rest"
    using inv by (simp add: disciplined_iff)
  show ?thesis
  proof (cases rule: processJob_cases [of d jobID ?s])
    case (not_fetched e)
    then show ?thesis using inv0
      by (simp add: processJob_not_fetched disciplined_iff)
  next
    case (update1_failed job)
    then show ?thesis using inv0
      by (simp add: processJob_update1_failed disciplined_iff)
  next
    case (failed job)
    have found: "find (\<lambda>j. ID j = jobID) (jobsCol s) = Some job"
      using FindOne_Inr [OF failed(1)] by simp
    have left: "has_retries_left job"
      using inv find_Some_in [OF found] by (simp add: disciplined_iff)
    note succ = retry_step [OF left]
    have bnd: "0 \<le> sint (RetryCount job + 1)" "sint (RetryCount job + 1) \<le> MaxRetries"
      using left succ by (simp_all add: has_retries_left_def)
    define Q where "Q = (if sint (RetryCount job + 1) < MaxRetries then rest @ [jobID] else rest)"
    have memQ: "jobID \<in> set Q \<Longrightarrow> sint (RetryCount job + 1) < MaxRetries"
      using fresh by (cases "sint (RetryCount job + 1) < MaxRetries") (simp_all add: Q_def)
    have invQ: "disciplined (s\<lparr>jobQueue := Q\<rparr>)"
      using disciplined_rotate [OF inv] inv0
      by (cases "sint (RetryCount job + 1) < MaxRetries") (simp_all add: Q_def)
    define P where "P = update_first jobID (\<lambda>j. j\<lparr>Status := StatusProcessing, UpdatedAt := now1 d\<rparr>) (jobsCol s)"
    have invP: "disciplined (s\<lparr>jobQueue := Q, jobsCol := P\<rparr>)"
      using disciplined_update_status [OF invQ, where i = jobID and a = StatusProcessing and b = "now1 d"]
      by (simp add: P_def)
    have invF: "disciplined (s\<lparr>jobQueue := Q, jobsCol :=
        update_first jobID (\<lambda>j. j\<lparr>Status := StatusFailed, RetryCount := RetryCount job + 1, UpdatedAt := now2 d\<rparr>) P\<rparr>)"
      using disciplined_update_retry [OF invP bnd, where i = jobID and a = StatusFailed and b = "now2 d"] memQ
      by simp
    have eq: "processJob d jobID ?s =
       s\<lparr>jobQueue := Q,
         jobsCol := (if update2_fails d then P
           else update_first jobID (\<lambda>j. j\<lparr>Status := StatusFailed, RetryCount := RetryCount job + 1, UpdatedAt := now2 d\<rparr>) P),
         trace := trace (processJob d jobID ?s)\<rparr>"
      unfolding processJob_execution_failed [OF failed] by (simp add: Q_def P_def)
    show ?thesis
      using invP invF
      by (subst eq) (simp add: disciplined_iff)
  next
    case (succeeded job)
    define P where "P = update_first jobID (\<lambda>j. j\<lparr>Status := StatusProcessing, UpdatedAt := now1 d\<rparr>) (jobsCol s)"
    have invP: "disciplined (s\<lparr>jobQueue := rest, jobsCol := P\<rparr>)"
      using disciplined_update_status [OF inv0, where i = jobID and a = StatusProcessing and b = "now1 d"]
      by (simp add: P_def)
    have invC: "disciplined (s\<lparr>jobQueue := rest, jobsCol :=
         update_first jobID (\<lambda>j. j\<lparr>Status := StatusCompleted, UpdatedAt := now2 d\<rparr>) P\<rparr>)"
      using disciplined_update_status [OF invP, where i = jobID and a = StatusCompleted and b = "now2 d"] by simp
    have eq: "processJob d jobID ?s =
       s\<lparr>jobQueue := rest,
         jobsCol := (if update2_fails d then P
           else update_first jobID (\<lambda>j. j\<lparr>Status := StatusCompleted, UpdatedAt := now2 d\<rparr>) P),
         trace := trace (processJob d jobID ?s)\<rparr>"
      unfolding processJob_execution_succeeded [OF succeeded] by (simp add: P_def)
    show ?thesis
      using invP invC
      by (subst eq) (simp add: disciplined_iff)
  qed
qed

lemma find_update_first:
  "(\<And>j. ID (f j) = ID j) \<Longrightarrow>
   find (\<lambda>j. ID j = i) (update_first jobID f js) =
     (if i = jobID then map_option f (find (\<lambda>j. ID j = i) js) else find (\<lambda>j. ID j = i) js)"
  by (simp add: find_update_first_same find_update_first_other)

lemma processJob_retry_monotone:
  assumes left: "\<And>job. find (\<lambda>j. ID j = jobID) (jobsCol s) = Some job \<Longrightarrow> has_retries_left job"
    and rec: "record_of i s = Some j"
  shows "\<exists>j'. record_of i (processJob d jobID s) = Some j'
             \<and> sint (RetryCount j) \<le> sint (RetryCount j')"
proof (cases rule: processJob_cases [of d jobID s])
  case (not_fetched e)
  then show ?thesis using rec by (simp add: processJob_not_fetched record_of_def)
next
  case (update1_failed job)
  then show ?thesis using rec by (simp add: processJob_update1_failed record_of_def)
next
  case (failed job)
  have found: "find (\<lambda>j. ID j = jobID) (jobsCol s) = Some job"
    using failed(1) by (rule FindOne_Inr)
  have "sint (RetryCount job + 1) = sint (RetryCount job) + 1"
    using left [OF found] by (rule retry_step)
  then show ?thesis using rec found
    by (cases "i = jobID")
       (simp_all add: processJob_execution_failed [OF failed] record_of_def find_update_first)
next
  case (succeeded job)
  then show ?thesis using rec
    by (cases "i = jobID")
       (simp_all add: processJob_execution_succeeded [OF succeeded] record_of_def find_update_first)
qed

lemma processJob_no_new_record:
  "record_of i s = None \<Longrightarrow> record_of i (processJob d jobID s) = None"
proof -
  have "map ID (jobsCol (processJob d jobID s)) = map ID (jobsCol s)"
    by (rule map_jobsCol_processJob) simp_all
  then have "ID ` set (jobsCol (processJob d jobID s)) = ID ` set (jobsCol s)"
    by (metis set_map)
  then have "(\<forall>j\<in>set (jobsCol (processJob d jobID s)). ID j \<noteq> i) \<longleftrightarrow>
             (\<forall>j\<in>set (jobsCol s). ID j \<noteq> i)"
    by (metis (no_types, lifting) image_iff)
  then show "record_of i s = None \<Longrightarrow> record_of i (processJob d jobID s) = None"
    by (simp add: record_of_def find_None_ID)
qed

lemma disciplined_CreateJob:
  assumes "disciplined s"
  shows "disciplined (snd (CreateJob c r s))"
proof (cases "fst (CreateJob c r s)")
  case (HttpError code msg)
  from CreateJob_rejected [OF this] assms show ?thesis
    by (simp add: disciplined_iff)
next
  case (Json code job)
  note cr = CreateJob_created [OF this]
  have new: "\<forall>j\<in>set (jobsCol s). ID j \<noteq> ID job"
    using cr by (simp add: find_None_ID)
  have "ID job \<notin> set (jobQueue s)"
    using assms new by (auto simp: disciplined_iff find_None_ID)
  moreover have "retry_bounded job" "has_retries_left job"
    using cr by (auto simp: retry_bounded_def has_retries_left_def MaxRetries_def)
  ultimately show ?thesis
    using assms cr new by (auto simp: disciplined_iff find_None_ID)
qed

lemma CreateJob_retry_monotone:
  assumes "record_of i s = Some j"
  shows "record_of i (snd (CreateJob c r s)) = Some j"
proof (cases "fst (CreateJob c r s)")
  case (HttpError code msg)
  from CreateJob_rejected [OF this] assms show ?thesis
    by (simp add: record_of_def)
next
  case (Json code job)
  from CreateJob_created [OF this] assms show ?thesis
    by (simp add: record_of_def find_snoc)
qed

lemma CreateJob_starts_at_zero:
  assumes "record_of i s = None" and "record_of i (snd (CreateJob c r s)) = Some j"
  shows "RetryCount j = 0 \<and> Status j = StatusPending"
proof (cases "fst (CreateJob c r s)")
  case (HttpError code msg)
  from CreateJob_rejected [OF this] assms show ?thesis
    by (simp add: record_of_def)
next
  case (Json code job)
  from CreateJob_created [OF this] assms show ?thesis
    by (auto simp: record_of_def find_snoc split: if_splits)
qed

lemma step_disciplined:
  assumes "disciplined (mem sys)" and "step a sys = Some sys'"
  shows "disciplined (mem sys')"
proof (cases a)
  case (Worker_receive w d)
  with assms(2) obtain jobID rest where q: "jobQueue (mem sys) = jobID # rest"
    and m: "mem sys' = processJob d jobID ((mem sys)\<lparr>jobQueue := rest\<rparr>)"
    by (auto split: if_splits list.splits)
  have "disciplined ((mem sys)\<lparr>jobQueue := jobID # rest\<rparr>)"
    using assms(1) q by (simp add: disciplined_iff)
  then show ?thesis unfolding m by (rule disciplined_processJob)
next
  case (Submit c r)
  with assms show ?thesis by (auto simp: disciplined_CreateJob)
qed (use assms in \<open>auto simp: disciplined_iff log_Printf_def split: if_splits\<close>)

lemma run_disciplined:
  "disciplined (mem sys) \<Longrightarrow> run as sys = Some sys' \<Longrightarrow> disciplined (mem sys')"
proof (induction as arbitrary: sys)
  case Nil
  then show ?case by simp
next
  case (Cons a as)
  then show ?case
    by (auto split: option.splits dest: step_disciplined)
qed

lemma step_retry_monotone:
  assumes inv: "disciplined (mem sys)" and st: "step a sys = Some sys'"
    and rec: "record_of i (mem sys) = Some j"
  shows "\<exists>j'. record_of i (mem sys') = Some j' \<and> sint (RetryCount j) \<le> sint (RetryCount j')"
proof (cases a)
  case (Worker_receive w d)
  with st obtain jobID rest where q: "jobQueue (mem sys) = jobID # rest"
    and m: "mem sys' = processJob d jobID ((mem sys)\<lparr>jobQueue := rest\<rparr>)"
    by (auto split: if_splits list.splits)
  have left: "has_retries_left job"
    if "find (\<lambda>j. ID j = jobID) (jobsCol ((mem sys)\<lparr>jobQueue := rest\<rparr>)) = Some job" for job
    using inv q find_Some_in [OF that] by (simp add: disciplined_iff)
  have "record_of i ((mem sys)\<lparr>jobQueue := rest\<rparr>) = Some j"
    using rec by (simp add: record_of_def)
  from processJob_retry_monotone [OF left this] show ?thesis
    unfolding m by blast
next
  case (Submit c r)
  with st rec show ?thesis by (auto simp: CreateJob_retry_monotone)
qed (use st rec in \<open>auto simp: record_of_def log_Printf_def split: if_splits\<close>)

lemma step_starts_at_zero:
  assumes st: "step a sys = Some sys'"
    and none: "record_of i (mem sys) = None" and rec: "record_of i (mem sys') = Some j"
  shows "RetryCount j = 0"
proof (cases a)
  case (Worker_receive w d)
  with st obtain jobID rest where
    m: "mem sys' = processJob d jobID ((mem sys)\<lparr>jobQueue := rest\<rparr>)"
    by (auto split: if_splits list.splits)
  have "record_of i ((mem sys)\<lparr>jobQueue := rest\<rparr>) = None"
    using none by (simp add: record_of_def)
  from processJob_no_new_record [OF this] rec show ?thesis
    unfolding m by simp
next
  case (Submit c r)
  with st none rec show ?thesis by (auto dest: CreateJob_starts_at_zero)
qed (use st none rec in \<open>auto simp: record_of_def log_Printf_def split: if_splits\<close>)

lemma disciplined_NewJobWorker:
  "\<forall>j\<in>set col. retry_bounded j \<Longrightarrow> disciplined (mem (NewJobWorker col qsize n))"
  by (simp add: NewJobWorker_def disciplined_iff)

text \<open>
  C6. In every state that a run of the service reaches from a collection whose retry
  counts are within their bounds (the empty one, for instance), the channel holds no
  identifier twice, and every record's retryCount is at least 0 and at most MaxRetries.
  From such a state, every action keeps every record and does not decrease its
  retryCount, and a record that appears was created with retryCount 0.
\<close>

theorem retryCount_bounded_and_monotone:
  assumes "\<forall>j\<in>set col. retry_bounded j"
    and "run as (NewJobWorker col qsize n) = Some sys"
  shows "distinct (jobQueue (mem sys))
       \<and> (\<forall>j\<in>set (jobsCol (mem sys)).
             0 \<le> sint (RetryCount j) \<and> sint (RetryCount j) \<le> MaxRetries)
       \<and> (\<forall>a sys' i j. step a sys = Some sys' \<longrightarrow> record_of i (mem sys) = Some j \<longrightarrow>
             (\<exists>j'. record_of i (mem sys') = Some j'
                  \<and> sint (RetryCount j) \<le> sint (RetryCount j')))
       \<and> (\<forall>a sys' i j. step a sys = Some sys' \<longrightarrow> record_of i (mem sys) = None \<longrightarrow>
             record_of i (mem sys') = Some j \<longrightarrow> RetryCount j = 0)"
proof -
  have inv: "disciplined (mem sys)"
    using disciplined_NewJobWorker [OF assms(1)] assms(2) by (rule run_disciplined)
  have "distinct (jobQueue (mem sys))"
    using inv by (simp add: disciplined_iff)
  moreover have "\<forall>j\<in>set (jobsCol (mem sys)).
      0 \<le> sint (RetryCount j) \<and> sint (RetryCount j) \<le> MaxRetries"
    using inv by (simp add: disciplined_iff retry_bounded_def)
  moreover have "\<forall>a sys' i j. step a sys = Some sys' \<longrightarrow> record_of i (mem sys) = Some j \<longrightarrow>
             (\<exists>j'. record_of i (mem sys') = Some j'
                  \<and> sint (RetryCount j) \<le> sint (RetryCount j'))"
    using step_retry_monotone [OF inv] by blast
  moreover have "\<forall>a sys' i j. step a sys = Some sys' \<longrightarrow> record_of i (mem sys) = None \<longrightarrow>
             record_of i (mem sys') = Some j \<longrightarrow> RetryCount j = 0"
    using step_starts_at_zero by blast
  ultimately show ?thesis by blast
qed

theorem retryCount_bounded_and_monotone_witness:
  "run [Start, Worker_begin 0, Submit (fresh 7 10) (post [(''fail'', IBool True)]),
        Worker_receive 0 healthy] (NewJobWorker [] 100 2) = Some retried_pool
   \<and> distinct (jobQueue (mem retried_pool))
   \<and> map RetryCount (jobsCol (mem retried_pool)) = [1]
   \<and> list_all (\<lambda>j. 0 \<le> sint (RetryCount j) \<and> sint (RetryCount j) \<le> MaxRetries)
        (jobsCol (mem retried_pool))"
proof -
  have h1: "\<forall>j\<in>set ([] :: Job list). retry_bounded j" by simp
  have h2: "run [Start, Worker_begin 0, Submit (fresh 7 10) (post [(''fail'', IBool True)]),
        Worker_receive 0 healthy] (NewJobWorker [] 100 2) = Some retried_pool"
    by code_simp
  from retryCount_bounded_and_monotone [OF h1 h2] h2 show ?thesis
    by (simp add: list_all_iff retried_pool_def)
qed

section \<open>Stop\<close>

lemma step_keeps_stop:
  "stopChan_closed sys \<Longrightarrow> step a sys = Some sys' \<Longrightarrow> stopChan_closed sys'"
  by (cases a) (auto split: if_splits list.splits)

lemma run_keeps_stop:
  "stopChan_closed sys \<Longrightarrow> run as sys = Some sys' \<Longrightarrow> stopChan_closed sys'"
proof (induction as arbitrary: sys)
  case Nil
  then show ?case by simp
next
  case (Cons a as)
  then show ?case by (auto split: option.splits dest: step_keeps_stop)
qed

lemma step_keeps_returned:
  assumes "w < length (workers sys)" and "workers sys ! w = Returned" and "step a sys = Some sys'"
  shows "w < length (workers sys') \<and> workers sys' ! w = Returned"
proof (cases a)
  case (Worker_begin w')
  with assms show ?thesis
    by (cases "w' = w") (auto split: if_splits)
next
  case (Worker_stop w')
  with assms show ?thesis
    by (cases "w' = w") (auto simp: in_select_def split: if_splits)
qed (use assms in \<open>auto simp: nth_append split: if_splits list.splits\<close>)

lemma run_keeps_returned:
  "w < length (workers sys) \<Longrightarrow> workers sys ! w = Returned \<Longrightarrow> run as sys = Some sys' \<Longrightarrow>
   w < length (workers sys') \<and> workers sys' ! w = Returned"
proof (induction as arbitrary: sys)
  case Nil
  then show ?case by simp
next
  case (Cons a as)
  from Cons.prems(3) obtain sys1 where s1: "step a sys = Some sys1" and r: "run as sys1 = Some sys'"
    by (auto split: option.splits)
  from step_keeps_returned [OF Cons.prems(1,2) s1] Cons.IH [OF _ _ r] show ?case by blast
qed

text \<open>
  C4 (as amended). Once \<open>Stop\<close> has been called the stop signal stays raised; every
  worker waiting in its \<open>select\<close> can take the \<open>stopChan\<close> case, which leaves the channel
  and the collection untouched; a worker that has taken it has returned for good and
  never receives again; and no worker receives while the channel is empty.
\<close>

theorem stop_is_best_effort:
  "(stopChan_closed sys \<longrightarrow> run as sys = Some sys' \<longrightarrow> stopChan_closed sys')
 \<and> (stopChan_closed sys \<longrightarrow> in_select sys w \<longrightarrow>
      (\<exists>sys1. step (Worker_stop w) sys = Some sys1
            \<and> jobQueue (mem sys1) = jobQueue (mem sys)
            \<and> jobsCol (mem sys1) = jobsCol (mem sys)
            \<and> workers sys1 ! w = Returned))
 \<and> (w < length (workers sys) \<longrightarrow> workers sys ! w = Returned \<longrightarrow> run as sys = Some sys' \<longrightarrow>
      workers sys' ! w = Returned \<and> step (Worker_receive w d) sys' = None)
 \<and> (jobQueue (mem sys) = [] \<longrightarrow> step (Worker_receive w d) sys = None)"
proof (intro conjI impI)
  assume "stopChan_closed sys" "run as sys = Some sys'"
  then show "stopChan_closed sys'" by (rule run_keeps_stop)
next
  assume "stopChan_closed sys" "in_select sys w"
  then show "\<exists>sys1. step (Worker_stop w) sys = Some sys1
            \<and> jobQueue (mem sys1) = jobQueue (mem sys)
            \<and> jobsCol (mem sys1) = jobsCol (mem sys)
            \<and> workers sys1 ! w = Returned"
    by (simp add: in_select_def log_Printf_def)
next
  assume a: "w < length (workers sys)" "workers sys ! w = Returned" "run as sys = Some sys'"
  from run_keeps_returned [OF a] show "workers sys' ! w = Returned" by simp
  from run_keeps_returned [OF a] show "step (Worker_receive w d) sys' = None"
    by (simp add: in_select_def)
next
  assume "jobQueue (mem sys) = []"
  then show "step (Worker_receive w d) sys = None" by simp
qed

theorem stop_is_best_effort_witness:
  "stopChan_closed stopped_pool \<and> in_select stopped_pool 0
   \<and> step (Worker_stop 0) stopped_pool = Some returned_after_stop
   \<and> jobQueue (mem returned_after_stop) = [7]
   \<and> workers returned_after_stop ! 0 = Returned
   \<and> step (Worker_receive 0 healthy) returned_after_stop = None
   \<and> stopChan_closed returned_after_stop"
proof -
  have h1: "stopChan_closed stopped_pool" by (simp add: stopped_pool_def)
  have h2: "in_select stopped_pool 0" by (simp add: stopped_pool_def in_select_def)
  have h3: "step (Worker_stop 0) stopped_pool = Some returned_after_stop"
    by code_simp
  have h4: "run [Worker_stop 0] stopped_pool = Some returned_after_stop"
    using h3 by simp
  have h5: "0 < length (workers returned_after_stop)" "workers returned_after_stop ! 0 = Returned"
    "run [] returned_after_stop = Some returned_after_stop"
    by (simp_all add: returned_after_stop_def)
  from stop_is_best_effort [of stopped_pool "[Worker_stop 0]" returned_after_stop 0 healthy]
    stop_is_best_effort [of returned_after_stop "[]" returned_after_stop 0 healthy]
    h1 h2 h3 h4 h5
  show ?thesis by (simp add: returned_after_stop_def)
qed

text \<open>
  C4 (as stated) fails: a worker that waits in its \<open>select\<close> while an identifier is
  buffered may take the \<open>jobQueue\<close> case after \<open>Stop\<close>. Here identifier 7 is buffered when
  \<open>Stop\<close> is called, and the first worker then receives it and completes the job.
\<close>

theorem receive_after_stop:
  "run [Start, Worker_begin 0, Submit (fresh 7 10) (post [(''fail'', IBool False)]), Stop]
       (NewJobWorker [] 100 2) = Some stopped_pool
   \<and> stopChan_closed stopped_pool
   \<and> jobQueue (mem stopped_pool) = [7]
   \<and> step (Worker_receive 0 healthy) stopped_pool = Some received_after_stop
   \<and> jobQueue (mem received_after_stop) = []
   \<and> map Status (jobsCol (mem received_after_stop)) = [StatusCompleted]"
proof -
  have "run [Start, Worker_begin 0, Submit (fresh 7 10) (post [(''fail'', IBool False)]), Stop]
       (NewJobWorker [] 100 2) = Some stopped_pool"
    by code_simp
  moreover have "step (Worker_receive 0 healthy) stopped_pool = Some received_after_stop"
    by code_simp
  ultimately show ?thesis
    by (simp add: stopped_pool_def received_after_stop_def)
qed

section \<open>A job that always fails\<close>

lemma writes_append: "writes (xs @ ys) = writes xs @ writes ys"
  by (induction xs rule: writes.induct) simp_all

lemma completions_append: "completions i (xs @ ys) = completions i xs @ completions i ys"
  by (simp add: completions_def writes_append)

lemma processJob_never_completes:
  assumes rec: "record_of i s = Some j" and fl: "execution_fails j"
    and st: "Status j \<noteq> StatusCompleted"
  shows "(\<exists>j'. record_of i (processJob d jobID s) = Some j' \<and> execution_fails j'
                \<and> Status j' \<noteq> StatusCompleted)
       \<and> (\<exists>es. trace (processJob d jobID s) = trace s @ es \<and> completions i es = [])"
proof (cases rule: processJob_cases [of d jobID s])
  case (not_fetched e)
  then show ?thesis using rec fl st
    by (simp add: processJob_not_fetched record_of_def completions_def)
next
  case (update1_failed job)
  then show ?thesis using rec fl st
    by (simp add: processJob_update1_failed record_of_def completions_def)
next
  case (failed job)
  have found: "find (\<lambda>j. ID j = jobID) (jobsCol s) = Some job"
    using failed(1) by (rule FindOne_Inr)
  show ?thesis using rec fl st found
    by (cases "i = jobID")
       (simp_all add: processJob_execution_failed [OF failed] record_of_def find_update_first
          completions_def execution_fails_def)
next
  case (succeeded job)
  have found: "find (\<lambda>j. ID j = jobID) (jobsCol s) = Some job"
    using succeeded(1) by (rule FindOne_Inr)
  have ne: "i \<noteq> jobID" using rec fl found succeeded(3) by (auto simp: record_of_def)
  show ?thesis using rec fl st ne
    by (simp add: processJob_execution_succeeded [OF succeeded] record_of_def find_update_first
          completions_def)
qed

lemma CreateJob_never_completes:
  assumes rec: "record_of i s = Some j"
  shows "record_of i (snd (CreateJob c r s)) = Some j
       \<and> (\<exists>es. trace (snd (CreateJob c r s)) = trace s @ es \<and> completions i es = [])"
proof (cases "fst (CreateJob c r s)")
  case (HttpError code msg)
  from CreateJob_rejected [OF this] CreateJob_retry_monotone [OF rec, of c r] show ?thesis
    by (auto simp: completions_def)
next
  case (Json code job)
  from CreateJob_created [OF this] CreateJob_retry_monotone [OF rec, of c r] show ?thesis
    by (auto simp: completions_def)
qed

lemma step_never_completes:
  assumes st: "step a sys = Some sys'"
    and rec: "record_of i (mem sys) = Some j" and fl: "execution_fails j"
    and ns: "Status j \<noteq> StatusCompleted"
  shows "(\<exists>j'. record_of i (mem sys') = Some j' \<and> execution_fails j'
                \<and> Status j' \<noteq> StatusCompleted)
       \<and> (\<exists>es. trace (mem sys') = trace (mem sys) @ es \<and> completions i es = [])"
proof (cases a)
  case (Worker_receive w d)
  with st obtain jobID rest where
    m: "mem sys' = processJob d jobID ((mem sys)\<lparr>jobQueue := rest\<rparr>)"
    by (auto split: if_splits list.splits)
  have "record_of i ((mem sys)\<lparr>jobQueue := rest\<rparr>) = Some j"
    using rec by (simp add: record_of_def)
  from processJob_never_completes [OF this fl ns, of d jobID] show ?thesis
    unfolding m by simp
next
  case (Submit c r)
  with st CreateJob_never_completes [OF rec, of c r] fl ns show ?thesis by auto
qed (use st rec fl ns in \<open>auto simp: record_of_def log_Printf_def completions_def split: if_splits\<close>)

lemma run_never_completes:
  assumes "run as sys = Some sys'"
    and "record_of i (mem sys) = Some j" and "execution_fails j"
    and "Status j \<noteq> StatusCompleted"
  shows "(\<exists>j'. record_of i (mem sys') = Some j' \<and> execution_fails j'
                \<and> Status j' \<noteq> StatusCompleted)
       \<and> (\<exists>es. trace (mem sys') = trace (mem sys) @ es \<and> completions i es = [])"
  using assms
proof (induction as arbitrary: sys j)
  case Nil
  then show ?case by (simp add: completions_def)
next
  case (Cons a as)
  from Cons.prems(1) obtain sys1 where s1: "step a sys = Some sys1" and r: "run as sys1 = Some sys'"
    by (auto split: option.splits)
  from step_never_completes [OF s1 Cons.prems(2-4)]
  obtain j1 es1 where j1: "record_of i (mem sys1) = Some j1" "execution_fails j1"
      "Status j1 \<noteq> StatusCompleted"
    and t1: "trace (mem sys1) = trace (mem sys) @ es1" "completions i es1 = []"
    by blast
  from Cons.IH [OF r j1]
  obtain j' es where j': "record_of i (mem sys') = Some j'" "execution_fails j'"
      "Status j' \<noteq> StatusCompleted"
    and t: "trace (mem sys') = trace (mem sys1) @ es" "completions i es = []"
    by blast
  have "trace (mem sys') = trace (mem sys) @ (es1 @ es)" "completions i (es1 @ es) = []"
    using t1 t by (simp_all add: completions_append)
  with j' show ?case by blast
qed

lemma healthy_failed_delivery:
  assumes rec: "record_of i s = Some j" and fl: "execution_fails j" and ok: "no_store_failure d"
  shows "record_of i (processJob d i s) =
           Some (j\<lparr>Status := StatusFailed, RetryCount := RetryCount j + 1, UpdatedAt := now2 d\<rparr>)
       \<and> jobQueue (processJob d i s) =
           (if sint (RetryCount j + 1) < MaxRetries then jobQueue s @ [i] else jobQueue s)"
proof -
  have f: "FindOne (find_fails d) i s = Inr j"
    using rec ok by (simp add: FindOne_def record_of_def no_store_failure_def)
  have u: "\<not> update1_fails d" "\<not> update2_fails d"
    using ok by (simp_all add: no_store_failure_def)
  show ?thesis
    using rec u(2)
    by (simp add: processJob_execution_failed [OF f u(1) fl] record_of_def find_update_first)
qed

lemma receive_step:
  assumes "in_select sys w" and "jobQueue (mem sys) = i # rest"
  shows "step (Worker_receive w d) sys =
           Some (sys\<lparr>mem := processJob d i ((mem sys)\<lparr>jobQueue := rest\<rparr>)\<rparr>)"
  using assms by simp

lemma healthy_receive:
  assumes sel: "in_select sys w" and q: "jobQueue (mem sys) = [i]"
    and rec: "record_of i (mem sys) = Some j" and fl: "execution_fails j"
    and ok: "no_store_failure d"
  shows "\<exists>sys'. step (Worker_receive w d) sys = Some sys'
      \<and> workers sys' = workers sys
      \<and> record_of i (mem sys') =
           Some (j\<lparr>Status := StatusFailed, RetryCount := RetryCount j + 1, UpdatedAt := now2 d\<rparr>)
      \<and> jobQueue (mem sys') = (if sint (RetryCount j + 1) < MaxRetries then [i] else [])"
proof -
  have "record_of i ((mem sys)\<lparr>jobQueue := []\<rparr>) = Some j"
    using rec by (simp add: record_of_def)
  from healthy_failed_delivery [OF this fl ok] receive_step [OF sel q, of d]
  show ?thesis by simp
qed

lemma record_of_processJob_other:
  assumes "i \<noteq> jobID"
  shows "record_of i (processJob d jobID s) = record_of i s"
proof (cases rule: processJob_cases [of d jobID s])
  case (not_fetched e)
  then show ?thesis by (simp add: processJob_not_fetched record_of_def)
next
  case (update1_failed job)
  then show ?thesis by (simp add: processJob_update1_failed record_of_def)
next
  case (failed job)
  then show ?thesis using assms
    by (simp add: processJob_execution_failed record_of_def find_update_first)
next
  case (succeeded job)
  then show ?thesis using assms
    by (simp add: processJob_execution_succeeded record_of_def find_update_first)
qed

lemma jobQueue_processJob:
  "jobQueue (processJob d jobID s) = jobQueue s
   \<or> jobQueue (processJob d jobID s) = jobQueue s @ [jobID]"
proof (cases rule: processJob_cases [of d jobID s])
  case (not_fetched e)
  then show ?thesis by (simp add: processJob_not_fetched)
next
  case (update1_failed job)
  then show ?thesis by (simp add: processJob_update1_failed)
next
  case (failed job)
  then show ?thesis by (simp add: processJob_execution_failed)
next
  case (succeeded job)
  then show ?thesis by (simp add: processJob_execution_succeeded)
qed

lemma jobQueue_CreateJob:
  "set (jobQueue s) \<subseteq> set (jobQueue (snd (CreateJob c r s)))"
proof (cases "fst (CreateJob c r s)")
  case (HttpError code msg)
  from CreateJob_rejected [OF this] show ?thesis by simp
next
  case (Json code job)
  from CreateJob_created [OF this] show ?thesis by auto
qed

lemma step_retries_until_exhausted:
  assumes st: "step a sys = Some sys'" and h: "healthy_action a"
    and inv: "disciplined (mem sys)"
    and rec: "record_of i (mem sys) = Some j" and fl: "execution_fails j"
    and fin: "i \<notin> set (jobQueue (mem sys)) \<Longrightarrow>
                Status j = StatusFailed \<and> sint (RetryCount j) = 3"
  shows "\<exists>j'. record_of i (mem sys') = Some j' \<and> execution_fails j'
      \<and> (i \<notin> set (jobQueue (mem sys')) \<longrightarrow>
            Status j' = StatusFailed \<and> sint (RetryCount j') = 3)"
proof (cases a)
  case (Worker_receive w d)
  with st obtain jobID rest where sel: "in_select sys w"
    and q: "jobQueue (mem sys) = jobID # rest"
    and m: "mem sys' = processJob d jobID ((mem sys)\<lparr>jobQueue := rest\<rparr>)"
    by (auto split: if_splits list.splits)
  let ?s = "(mem sys)\<lparr>jobQueue := rest\<rparr>"
  have ok: "no_store_failure d" using h Worker_receive by simp
  have rec0: "record_of i ?s = Some j" using rec by (simp add: record_of_def)
  show ?thesis
  proof (cases "jobID = i")
    case True
    have notin: "i \<notin> set rest" using inv q True by (simp add: disciplined_iff)
    have "j \<in> set (jobsCol (mem sys)) \<and> ID j = i"
      using rec unfolding record_of_def by (rule find_Some_in)
    then have left: "has_retries_left j"
      using inv q True by (auto simp: disciplined_iff)
    note succ = retry_step [OF left]
    from healthy_failed_delivery [OF rec0 fl ok]
    have r': "record_of i (mem sys') =
        Some (j\<lparr>Status := StatusFailed, RetryCount := RetryCount j + 1, UpdatedAt := now2 d\<rparr>)"
      and q': "jobQueue (mem sys') =
        (if sint (RetryCount j + 1) < MaxRetries then rest @ [i] else rest)"
      unfolding m True by simp_all
    have "execution_fails (j\<lparr>Status := StatusFailed, RetryCount := RetryCount j + 1, UpdatedAt := now2 d\<rparr>)"
      using fl by (simp add: execution_fails_def)
    moreover have "sint (RetryCount j + 1) = 3" if "i \<notin> set (jobQueue (mem sys'))"
    proof -
      have "\<not> sint (RetryCount j + 1) < MaxRetries"
        using that q' by (auto split: if_splits)
      with left succ show ?thesis
        by (simp add: has_retries_left_def MaxRetries_def)
    qed
    ultimately show ?thesis using r' by simp
  next
    case False
    then have ne: "i \<noteq> jobID" by simp
    have r': "record_of i (mem sys') = Some j"
      unfolding m using record_of_processJob_other [OF ne] rec0 by simp
    have "i \<notin> set (jobQueue (mem sys))" if "i \<notin> set (jobQueue (mem sys'))"
      using that jobQueue_processJob [of d jobID ?s] q ne unfolding m by auto
    with r' fl fin show ?thesis by auto
  qed
next
  case (Submit c r)
  with st have m: "mem sys' = snd (CreateJob c r (mem sys))" by auto
  have r': "record_of i (mem sys') = Some j"
    unfolding m using rec by (rule CreateJob_retry_monotone)
  have "i \<notin> set (jobQueue (mem sys))" if "i \<notin> set (jobQueue (mem sys'))"
    using that jobQueue_CreateJob [of "mem sys" c r] unfolding m by auto
  with r' fl fin show ?thesis by auto
next
  case Start
  with st rec fl fin show ?thesis by (auto simp: record_of_def log_Printf_def)
next
  case (Worker_begin w)
  with st rec fl fin show ?thesis by (auto simp: record_of_def log_Printf_def split: if_splits)
next
  case (Worker_stop w)
  with st rec fl fin show ?thesis by (auto simp: record_of_def log_Printf_def split: if_splits)
next
  case Stop
  with st rec fl fin show ?thesis by (auto simp: record_of_def log_Printf_def split: if_splits)
qed

lemma run_retries_until_exhausted:
  assumes "run as sys = Some sys'" and "\<forall>a\<in>set as. healthy_action a"
    and "disciplined (mem sys)"
    and "record_of i (mem sys) = Some j" and "execution_fails j"
    and "i \<notin> set (jobQueue (mem sys)) \<longrightarrow>
                Status j = StatusFailed \<and> sint (RetryCount j) = 3"
  shows "\<exists>j'. record_of i (mem sys') = Some j' \<and> execution_fails j'
      \<and> (i \<notin> set (jobQueue (mem sys')) \<longrightarrow>
            Status j' = StatusFailed \<and> sint (RetryCount j') = 3)"
  using assms
proof (induction as arbitrary: sys j)
  case Nil
  then show ?case by simp
next
  case (Cons a as)
  from Cons.prems(1) obtain sys1 where s1: "step a sys = Some sys1" and r: "run as sys1 = Some sys'"
    by (auto split: option.splits)
  have h: "healthy_action a" "\<forall>a\<in>set as. healthy_action a" using Cons.prems(2) by simp_all
  have inv1: "disciplined (mem sys1)" using Cons.prems(3) s1 by (rule step_disciplined)
  from step_retries_until_exhausted [OF s1 h(1) Cons.prems(3,4,5)] Cons.prems(6)
  obtain j1 where j1: "record_of i (mem sys1) = Some j1" "execution_fails j1"
    "i \<notin> set (jobQueue (mem sys1)) \<longrightarrow> Status j1 = StatusFailed \<and> sint (RetryCount j1) = 3"
    by blast
  from Cons.IH [OF r h(2) inv1 j1] show ?case .
qed

lemma sint_is_3: "sint (x :: 64 word) = 3 \<Longrightarrow> x = 3"
proof -
  assume "sint x = 3"
  then have "word_of_int (sint x) = (word_of_int 3 :: 64 word)" by simp
  then show "x = 3" by simp
qed

text \<open>
  C2. Let \<open>CreateJob\<close> accept a job whose payload maps \<open>fail\<close> to true. If the channel
  was empty and no call to the store fails, three deliveries follow the submission, after
  which the record has status Failed and retryCount 3, the channel is empty and no
  further delivery can happen. Whatever the run after the submission (any interleaving
  with other jobs, any failure of the store), the job's record never has status
  Completed and no write that sets its status to Completed is ever issued. And in every
  run after the submission, from a state that keeps the discipline, with any other
  submissions and deliveries interleaved and no call to the store failing in a delivery:
  once the identifier is no longer in the channel, the record has status Failed and
  retryCount 3.
\<close>

theorem always_failing_job_ends_failed:
  assumes created: "fst (CreateJob c r (mem sys)) = Json code job"
    and payload: "map_of (Payload job) ''fail'' = Some (IBool True)"
  shows "(jobQueue (mem sys) = [] \<longrightarrow> in_select sys w1 \<longrightarrow> in_select sys w2 \<longrightarrow> in_select sys w3 \<longrightarrow>
          no_store_failure d1 \<longrightarrow> no_store_failure d2 \<longrightarrow> no_store_failure d3 \<longrightarrow>
          (\<exists>sys'. run [Submit c r, Worker_receive w1 d1, Worker_receive w2 d2,
                        Worker_receive w3 d3] sys = Some sys'
                \<and> record_of (ID job) (mem sys') =
                    Some (job\<lparr>Status := StatusFailed, RetryCount := 3, UpdatedAt := now2 d3\<rparr>)
                \<and> jobQueue (mem sys') = []
                \<and> (\<forall>w d. step (Worker_receive w d) sys' = None)))
       \<and> (\<forall>as sys'. run (Submit c r # as) sys = Some sys' \<longrightarrow>
            (\<exists>j. record_of (ID job) (mem sys') = Some j \<and> Status j \<noteq> StatusCompleted)
            \<and> completions (ID job) (drop (length (trace (mem sys))) (trace (mem sys'))) = [])
       \<and> (\<forall>as sys'. disciplined (mem sys) \<longrightarrow> run (Submit c r # as) sys = Some sys' \<longrightarrow>
            (\<forall>a\<in>set as. healthy_action a) \<longrightarrow> ID job \<notin> set (jobQueue (mem sys')) \<longrightarrow>
            (\<exists>j. record_of (ID job) (mem sys') = Some j \<and> Status j = StatusFailed
                 \<and> RetryCount j = 3 \<and> sint (RetryCount j) = 3))"
proof (intro conjI impI allI)
  note cr = CreateJob_created [OF created]
  define sys1 where "sys1 = sys\<lparr>mem := snd (CreateJob c r (mem sys))\<rparr>"
  have fl: "execution_fails job"
    using payload by (simp add: execution_fails_def)
  have st1: "step (Submit c r) sys = Some sys1" by (simp add: sys1_def)
  have rec1: "record_of (ID job) (mem sys1) = Some job"
    using cr by (simp add: sys1_def record_of_def find_snoc)
  have tr1: "trace (mem sys1) = trace (mem sys) @ [Enqueue (ID job)]"
    using cr by (simp add: sys1_def)
  have pend: "Status job \<noteq> StatusCompleted" "RetryCount job = 0"
    using cr by auto
  {
    assume q: "jobQueue (mem sys) = []"
      and w: "in_select sys w1" "in_select sys w2" "in_select sys w3"
      and ok: "no_store_failure d1" "no_store_failure d2" "no_store_failure d3"
    have q1: "jobQueue (mem sys1) = [ID job]" using cr q by (simp add: sys1_def)
    have w1: "in_select sys1 w1" "workers sys1 = workers sys"
      using w by (simp_all add: sys1_def in_select_def)
    from healthy_receive [OF w1(1) q1 rec1 fl ok(1)]
    obtain sys2 where s2: "step (Worker_receive w1 d1) sys1 = Some sys2"
      and w2: "workers sys2 = workers sys1"
      and rec2: "record_of (ID job) (mem sys2) =
           Some (job\<lparr>Status := StatusFailed, RetryCount := 1, UpdatedAt := now2 d1\<rparr>)"
      and q2: "jobQueue (mem sys2) = [ID job]"
      using pend by (auto simp: MaxRetries_def)
    have fl2: "execution_fails (job\<lparr>Status := StatusFailed, RetryCount := 1, UpdatedAt := now2 d1\<rparr>)"
      using fl by (simp add: execution_fails_def)
    have sel2: "in_select sys2 w2" using w w1 w2 by (simp add: in_select_def)
    from healthy_receive [OF sel2 q2 rec2 fl2 ok(2)]
    obtain sys3 where s3: "step (Worker_receive w2 d2) sys2 = Some sys3"
      and w3: "workers sys3 = workers sys2"
      and rec3: "record_of (ID job) (mem sys3) =
           Some (job\<lparr>Status := StatusFailed, RetryCount := 2, UpdatedAt := now2 d2\<rparr>)"
      and q3: "jobQueue (mem sys3) = [ID job]"
      by (auto simp: MaxRetries_def)
    have fl3: "execution_fails (job\<lparr>Status := StatusFailed, RetryCount := 2, UpdatedAt := now2 d2\<rparr>)"
      using fl by (simp add: execution_fails_def)
    have sel3: "in_select sys3 w3" using w w1 w2 w3 by (simp add: in_select_def)
    from healthy_receive [OF sel3 q3 rec3 fl3 ok(3)]
    obtain sys4 where s4: "step (Worker_receive w3 d3) sys3 = Some sys4"
      and rec4: "record_of (ID job) (mem sys4) =
           Some (job\<lparr>Status := StatusFailed, RetryCount := 3, UpdatedAt := now2 d3\<rparr>)"
      and q4: "jobQueue (mem sys4) = []"
      by (auto simp: MaxRetries_def)
    have "run [Submit c r, Worker_receive w1 d1, Worker_receive w2 d2, Worker_receive w3 d3] sys
            = Some sys4"
      using st1 s2 s3 s4 by simp
    moreover have "\<forall>w d. step (Worker_receive w d) sys4 = None"
      using q4 by simp
    ultimately show "\<exists>sys'. run [Submit c r, Worker_receive w1 d1, Worker_receive w2 d2,
                        Worker_receive w3 d3] sys = Some sys'
                \<and> record_of (ID job) (mem sys') =
                    Some (job\<lparr>Status := StatusFailed, RetryCount := 3, UpdatedAt := now2 d3\<rparr>)
                \<and> jobQueue (mem sys') = []
                \<and> (\<forall>w d. step (Worker_receive w d) sys' = None)"
      using rec4 q4 by blast
  }
  {
    fix as sys'
    assume "run (Submit c r # as) sys = Some sys'"
    then have r: "run as sys1 = Some sys'" using st1 by simp
    from run_never_completes [OF r rec1 fl pend(1)]
    obtain j es where j: "record_of (ID job) (mem sys') = Some j" "Status j \<noteq> StatusCompleted"
      and t: "trace (mem sys') = trace (mem sys1) @ es" "completions (ID job) es = []"
      by blast
    show "\<exists>j. record_of (ID job) (mem sys') = Some j \<and> Status j \<noteq> StatusCompleted"
      using j by blast
    show "completions (ID job) (drop (length (trace (mem sys))) (trace (mem sys'))) = []"
      using t tr1 by (simp add: completions_append) (simp add: completions_def)
  }
  {
    fix as sys'
    assume inv: "disciplined (mem sys)"
      and "run (Submit c r # as) sys = Some sys'"
      and h: "\<forall>a\<in>set as. healthy_action a"
      and out: "ID job \<notin> set (jobQueue (mem sys'))"
    then have r: "run as sys1 = Some sys'" using st1 by simp
    have inv1: "disciplined (mem sys1)" using inv st1 by (rule step_disciplined)
    have "ID job \<in> set (jobQueue (mem sys1))" using cr by (simp add: sys1_def)
    then have q1: "ID job \<notin> set (jobQueue (mem sys1)) \<longrightarrow>
        Status job = StatusFailed \<and> sint (RetryCount job) = 3"
      by simp
    from run_retries_until_exhausted [OF r h inv1 rec1 fl q1] out
    obtain j where "record_of (ID job) (mem sys') = Some j" "Status j = StatusFailed"
      "sint (RetryCount j) = 3"
      by blast
    then show "\<exists>j. record_of (ID job) (mem sys') = Some j \<and> Status j = StatusFailed
                 \<and> RetryCount j = 3 \<and> sint (RetryCount j) = 3"
      using sint_is_3 by blast
  }
qed

theorem always_failing_job_ends_failed_witness:
  "fst (CreateJob (fresh 7 10) (post [(''fail'', IBool True)]) (mem started_pool)) =
     Json 201 fail_job
   \<and> map_of (Payload fail_job) ''fail'' = Some (IBool True)
   \<and> run [Submit (fresh 7 10) (post [(''fail'', IBool True)]), Worker_receive 0 healthy,
           Worker_receive 0 healthy, Worker_receive 0 healthy] started_pool = Some exhausted_pool
   \<and> record_of 7 (mem exhausted_pool) =
        Some (fail_job\<lparr>Status := StatusFailed, RetryCount := 3, UpdatedAt := 30\<rparr>)
   \<and> jobQueue (mem exhausted_pool) = []
   \<and> completions 7 (drop 2 (trace (mem exhausted_pool))) = []
   \<and> disciplined (mem started_pool)
   \<and> list_all healthy_action [Worker_receive 0 healthy, Worker_receive 0 healthy,
        Worker_receive 0 healthy]
   \<and> map_option (\<lambda>j. (Status j, RetryCount j)) (record_of 7 (mem exhausted_pool)) =
        Some (StatusFailed, 3)"
proof -
  have h1: "fst (CreateJob (fresh 7 10) (post [(''fail'', IBool True)]) (mem started_pool)) =
     Json 201 fail_job"
    by code_simp
  have h2: "map_of (Payload fail_job) ''fail'' = Some (IBool True)"
    by (simp add: fail_job_def)
  have h3: "jobQueue (mem started_pool) = []" "in_select started_pool 0"
    "no_store_failure healthy" "length (trace (mem started_pool)) = 2"
    by (simp_all add: started_pool_def in_select_def no_store_failure_def healthy_def)
  have h4: "run [Submit (fresh 7 10) (post [(''fail'', IBool True)]), Worker_receive 0 healthy,
           Worker_receive 0 healthy, Worker_receive 0 healthy] started_pool = Some exhausted_pool"
    by code_simp
  have h5: "ID fail_job = 7" "now2 healthy = 30"
    by (simp_all add: fail_job_def healthy_def)
  note inst = always_failing_job_ends_failed [OF h1 h2, of 0 0 0 healthy healthy healthy]
  from inst h3 h4 have a: "record_of (ID fail_job) (mem exhausted_pool) =
        Some (fail_job\<lparr>Status := StatusFailed, RetryCount := 3, UpdatedAt := now2 healthy\<rparr>)
      \<and> jobQueue (mem exhausted_pool) = []"
    by (auto simp del: run.simps step.simps)
  from inst h4 have b: "completions (ID fail_job)
        (drop (length (trace (mem started_pool))) (trace (mem exhausted_pool))) = []"
    by blast
  have h6: "disciplined (mem started_pool)"
    by (simp add: disciplined_def started_pool_def)
  have h7: "\<forall>a\<in>set [Worker_receive 0 healthy, Worker_receive 0 healthy,
        Worker_receive 0 healthy]. healthy_action a"
    using h3 by simp
  have h8: "ID fail_job \<notin> set (jobQueue (mem exhausted_pool))"
    by (simp add: exhausted_pool_def)
  from inst h6 h4 h7 h8
  have "\<exists>j. record_of (ID fail_job) (mem exhausted_pool) = Some j \<and> Status j = StatusFailed
                 \<and> RetryCount j = 3 \<and> sint (RetryCount j) = 3"
    by blast
  then have c: "map_option (\<lambda>j. (Status j, RetryCount j)) (record_of 7 (mem exhausted_pool)) =
        Some (StatusFailed, 3)"
    by (auto simp: h5)
  from a b c h1 h2 h4 h6 h7 show ?thesis
    by (simp add: h3 h5 del: run.simps step.simps)
qed

section \<open>The list query\<close>

lemma length_jobsCol_processJob [simp]:
  "length (jobsCol (processJob d jobID s)) = length (jobsCol s)"
proof -
  have "map ID (jobsCol (processJob d jobID s)) = map ID (jobsCol s)"
    by (rule map_jobsCol_processJob) simp_all
  then show ?thesis by (rule map_eq_imp_length_eq)
qed

lemma length_jobsCol_CreateJob:
  "length (jobsCol (snd (CreateJob c r s))) =
     length (jobsCol s) + (case fst (CreateJob c r s) of Json code job \<Rightarrow> 1 | _ \<Rightarrow> 0)"
proof (cases "fst (CreateJob c r s)")
  case (HttpError code msg)
  from CreateJob_rejected [OF this] HttpError show ?thesis by simp
next
  case (Json code job)
  from CreateJob_created [OF this] Json show ?thesis by simp
qed

lemma run_length_jobsCol:
  "run as sys = Some sys' \<Longrightarrow>
   length (jobsCol (mem sys')) = length (jobsCol (mem sys)) + accepted as sys"
proof (induction as arbitrary: sys)
  case Nil
  then show ?case by simp
next
  case (Cons a as)
  from Cons.prems obtain sys1 where s1: "step a sys = Some sys1" and r: "run as sys1 = Some sys'"
    by (auto split: option.splits)
  have "length (jobsCol (mem sys1)) =
          length (jobsCol (mem sys)) +
          (case a of Submit c r \<Rightarrow> (case fst (CreateJob c r (mem sys)) of Json code job \<Rightarrow> 1 | _ \<Rightarrow> 0)
           | _ \<Rightarrow> 0)"
    using s1
    by (cases a) (auto simp: log_Printf_def length_jobsCol_CreateJob split: if_splits list.splits)
  with Cons.IH [OF r] s1 show ?case by simp
qed

lemma ListJobs_Json:
  assumes "ListJobs l m s = (Json code jobs, s')"
  shows "jobs = take 50 (rev (sort_key CreatedAt (jobsCol s))) \<and> code = 200 \<and> s' = s \<and> m = ''GET''"
  using assms by (auto simp: ListJobs_def Find_def split: if_splits sum.splits)

lemma newest_first_sorted:
  "sorted_wrt (\<lambda>a b. CreatedAt b \<le> CreatedAt a) (rev (sort_key CreatedAt js))"
proof -
  have "sorted (map CreatedAt (sort_key CreatedAt js))" by (rule sorted_sort_key)
  then have "sorted_wrt (\<lambda>a b. CreatedAt a \<le> CreatedAt b) (sort_key CreatedAt js)"
    by (simp add: sorted_wrt_map)
  then show ?thesis by (simp add: sorted_wrt_rev)
qed

lemma sorted_wrt_take_drop:
  assumes "sorted_wrt P xs" and "x \<in> set (take n xs)" and "y \<in> set (drop n xs)"
  shows "P x y"
proof -
  have "sorted_wrt P (take n xs @ drop n xs)" using assms(1) by simp
  then show ?thesis using assms(2,3) unfolding sorted_wrt_append by blast
qed

text \<open>
  C9. Whenever the list query answers with records, it answers with at most 50 of the
  collection's records (exactly 50 when the collection holds that many), ordered by
  creation time descending, and no record left out is more recent than one returned.
  In particular, in a state reached by a run in which at least 60 submissions were
  accepted, it returns exactly 50 records.
\<close>

theorem list_jobs_newest_fifty:
  assumes "ListJobs l m s = (Json code jobs, s')"
  shows "length jobs = min 50 (length (jobsCol s))
       \<and> sorted_wrt (\<lambda>a b. CreatedAt b \<le> CreatedAt a) jobs
       \<and> set jobs \<subseteq> set (jobsCol s)
       \<and> (\<forall>j\<in>set (jobsCol s). j \<notin> set jobs \<longrightarrow> (\<forall>k\<in>set jobs. CreatedAt j \<le> CreatedAt k))
       \<and> (\<forall>as sys0 sys. run as sys0 = Some sys \<longrightarrow> mem sys = s \<longrightarrow> 60 \<le> accepted as sys0 \<longrightarrow>
             length jobs = 50)"
proof -
  let ?all = "rev (sort_key CreatedAt (jobsCol s))"
  have jobs: "jobs = take 50 ?all" using ListJobs_Json [OF assms] by simp
  have len: "length jobs = min 50 (length (jobsCol s))"
    by (simp add: jobs)
  have srt: "sorted_wrt (\<lambda>a b. CreatedAt b \<le> CreatedAt a) jobs"
    unfolding jobs using newest_first_sorted by (rule sorted_wrt_take)
  have sub: "set jobs \<subseteq> set (jobsCol s)"
    unfolding jobs using set_take_subset [of 50 ?all] by simp
  have rest: "\<forall>j\<in>set (jobsCol s). j \<notin> set jobs \<longrightarrow> (\<forall>k\<in>set jobs. CreatedAt j \<le> CreatedAt k)"
  proof (intro ballI impI)
    fix j k assume j: "j \<in> set (jobsCol s)" "j \<notin> set jobs" and k: "k \<in> set jobs"
    have "j \<in> set (take 50 ?all @ drop 50 ?all)" using j(1) by simp
    then have "j \<in> set (drop 50 ?all)" using j(2) unfolding jobs set_append by blast
    from sorted_wrt_take_drop [OF newest_first_sorted _ this, of k] k
    show "CreatedAt j \<le> CreatedAt k" by (simp add: jobs)
  qed
  have sixty: "\<forall>as sys0 sys. run as sys0 = Some sys \<longrightarrow> mem sys = s \<longrightarrow> 60 \<le> accepted as sys0 \<longrightarrow>
             length jobs = 50"
    using run_length_jobsCol len by fastforce
  from len srt sub rest sixty show ?thesis by blast
qed

lemma run_submissions:
  "\<forall>a\<in>set as. \<exists>c r. a = Submit c r \<Longrightarrow> \<exists>sys'. run as sys = Some sys'"
  by (induction as arbitrary: sys) auto

theorem list_jobs_newest_fifty_witness:
  "accepted sixty_submissions (NewJobWorker [] 100 2) = 60
   \<and> (case run sixty_submissions (NewJobWorker [] 100 2) of
        None \<Rightarrow> False
      | Some sys \<Rightarrow>
          (case fst (ListJobs answering ''GET'' (mem sys)) of
             Json code jobs \<Rightarrow> length jobs = 50
           | HttpError code msg \<Rightarrow> False))"
proof -
  have acc: "accepted sixty_submissions (NewJobWorker [] 100 2) = 60"
    by code_simp
  have "\<forall>a\<in>set sixty_submissions. \<exists>c r. a = Submit c r"
    by (auto simp: sixty_submissions_def)
  from run_submissions [OF this]
  obtain sys where r: "run sixty_submissions (NewJobWorker [] 100 2) = Some sys"
    by blast
  have l: "ListJobs answering ''GET'' (mem sys) =
             (Json 200 (take 50 (rev (sort_key CreatedAt (jobsCol (mem sys))))), mem sys)"
    by (simp add: ListJobs_def Find_def answering_def)
  from list_jobs_newest_fifty [OF l] r acc
  have "length (take 50 (rev (sort_key CreatedAt (jobsCol (mem sys))))) = 50"
    by (metis order_refl)
  with acc r l show ?thesis by simp
qed

end
